theory Spec2Isabelle
  imports Main "HOL-Library.Word" "HOL-Library.Sublist"
begin

section \<open>Data model of the bytecode syncer (eth/protocols/sstorage/sync.go)\<close>

text \<open>
  A \<open>common.Hash\<close> is 32 bytes, read big-endian as a 256-bit word. A Go byte slice is
  either \<open>nil\<close> or a (possibly empty) sequence of bytes; the two are told apart by
  \<open>code == nil\<close> in \<open>processBytecodeResponse\<close>, so a slice is an optional byte list
  with \<open>None\<close> for \<open>nil\<close>.
\<close>

type_synonym hash = "256 word"
type_synonym byte = "8 word"
type_synonym blob = "byte list option"

fun bytesOf :: "blob \<Rightarrow> byte list" where
  "bytesOf None = []"
| "bytesOf (Some bs) = bs"

definition len :: "blob \<Rightarrow> nat" where
  "len b = length (bytesOf b)"

text \<open>
  The Keccak-256 primitive is outside the repository; every function that hashes takes
  it as the parameter \<open>K\<close>. Writing a \<open>nil\<close> slice into the hasher writes nothing.
\<close>

definition hashOf :: "(byte list \<Rightarrow> hash) \<Rightarrow> blob \<Rightarrow> hash" where
  "hashOf K b = K (bytesOf b)"

text \<open>\<open>common.BytesToHash\<close>: the last 32 bytes, left-padded with zeros.\<close>

definition bigEndian :: "byte list \<Rightarrow> nat" where
  "bigEndian bs = foldl (\<lambda>a b. a * 256 + unat b) 0 bs"

definition BytesToHash :: "byte list \<Rightarrow> hash" where
  "BytesToHash bs = word_of_nat (bigEndian bs)"

text \<open>\<open>common.BigToHash\<close> and \<open>Hash.Big\<close>: truncation to 32 bytes and back.\<close>

definition BigToHash :: "int \<Rightarrow> hash" where
  "BigToHash x = word_of_int x"

definition Big :: "hash \<Rightarrow> int" where
  "Big h = uint h"

subsection \<open>Constants\<close>

definition minRequestSize :: int where
  "minRequestSize = 64 * 1024"

definition maxRequestSize :: int where
  "maxRequestSize = 512 * 1024"

definition maxCodeRequestCount :: int where
  "maxCodeRequestCount = maxRequestSize div (24 * 1024) * 4"

definition maxTrieRequestCount :: int where
  "maxTrieRequestCount = maxRequestSize div 512"

definition accountConcurrency :: nat where
  "accountConcurrency = 16"

definition storageConcurrency :: nat where
  "storageConcurrency = 16"

subsection \<open>Requests, responses and tasks\<close>

text \<open>
  A \<open>time.Timer\<close> created by \<open>time.AfterFunc\<close>: \<open>Stop\<close> returns true exactly when it
  finds the timer armed, and then disarms it; a timer that has fired or was stopped
  is left as it is.
\<close>

datatype timer = Armed | Fired | Stopped

definition timerStop :: "timer \<Rightarrow> bool \<times> timer" where
  "timerStop t = (if t = Armed then (True, Stopped) else (False, t))"

text \<open>
  Requests and account tasks are shared through pointers (the ledger, the timer
  callback, the peer goroutine and the response all hold the same object), so they
  live in explicit stores indexed by addresses. The \<open>stale\<close> channel carries no
  data: it is open (\<open>False\<close>) or closed (\<open>True\<close>).
\<close>

type_synonym reqRef = nat
type_synonym taskRef = nat

record bytecodeRequest =
  req_peer :: string
  req_id :: "64 word"
  req_timeout :: timer
  req_stale :: bool
  req_hashes :: "hash list"
  req_task :: taskRef

record bytecodeResponse =
  res_task :: taskRef
  res_hashes :: "hash list"
  res_codes :: "blob list"

record bytecodeHealRequest =
  hreq_peer :: string
  hreq_id :: "64 word"
  hreq_timeout :: timer
  hreq_stale :: bool
  hreq_hashes :: "hash list"

record bytecodeHealResponse =
  hres_hashes :: "hash list"
  hres_codes :: "blob list"

record stateAccount =
  Nonce :: "64 word"
  Balance :: nat
  Root :: hash
  CodeHash :: "byte list"

record accountResponse =
  accounts :: "stateAccount list"

text \<open>
  Modelled from the spec: the declaration of \<open>accountTask\<close> is not in the source file;
  the fields are the ones \<open>sync.go\<close> reads and writes (the spec calls the task an
  opaque work-source snapshot owning a pending set of hashes with unique keys).
\<close>

record accountTask =
  Next :: hash
  Last :: hash
  res :: "accountResponse option"
  pend :: int
  needCode :: "bool list"
  codeTasks :: "hash set"

text \<open>
  The healer's trie scheduler is outside the repository part under study; its state
  is the type parameter \<open>'sch\<close> and its operations are parameters of the functions
  that call them.
\<close>

record 'sch healTask =
  scheduler :: 'sch
  trieTasks :: "hash \<rightharpoonup> byte list list"
  h_codeTasks :: "hash set"

subsection \<open>The key-value store and its write batches\<close>

text \<open>
  The key schema of \<open>rawdb\<close> is outside the source file: one constructor per kind of
  row that \<open>sync.go\<close> writes.
\<close>

datatype dbKey =
    CodeKey hash
  | AccountSnapshotKey hash
  | StorageSnapshotKey hash hash

type_synonym kvStore = "dbKey \<rightharpoonup> byte list"

text \<open>
  Modelled from the spec: \<open>ethdb.Batch\<close> (\<open>Put\<close>, \<open>ValueSize\<close>, \<open>Write\<close>, \<open>Reset\<close>) is
  not in the source file. The spec counts the progress bytes of a delivery as the
  sum of the lengths of the persisted blobs, so \<open>ValueSize\<close> is the number of value
  bytes queued; \<open>Write\<close> applies the queued rows to the store in order.
\<close>

type_synonym batch = "(dbKey \<times> byte list) list"

definition batchPut :: "batch \<Rightarrow> dbKey \<Rightarrow> byte list \<Rightarrow> batch" where
  "batchPut b k v = b @ [(k, v)]"

definition ValueSize :: "batch \<Rightarrow> nat" where
  "ValueSize b = sum_list (map (\<lambda>kv. length (snd kv)) b)"

fun batchWrite :: "kvStore \<Rightarrow> batch \<Rightarrow> kvStore" where
  "batchWrite d [] = d"
| "batchWrite d ((k, v) # rest) = batchWrite (d(k \<mapsto> v)) rest"

definition WriteCode :: "batch \<Rightarrow> hash \<Rightarrow> byte list \<Rightarrow> batch" where
  "WriteCode b h code = batchPut b (CodeKey h) code"

definition WriteAccountSnapshot :: "batch \<Rightarrow> hash \<Rightarrow> byte list \<Rightarrow> batch" where
  "WriteAccountSnapshot b h entry = batchPut b (AccountSnapshotKey h) entry"

definition WriteStorageSnapshot :: "batch \<Rightarrow> hash \<Rightarrow> hash \<Rightarrow> byte list \<Rightarrow> batch" where
  "WriteStorageSnapshot b a h entry = batchPut b (StorageSnapshotKey a h) entry"

definition IdealBatchSize :: nat where
  "IdealBatchSize = 100 * 1024"

subsection \<open>The syncer\<close>

text \<open>
  The fields of \<open>Syncer\<close> that the modelled functions touch. \<open>update\<close> is the
  one-slot notification channel: \<open>True\<close> when a wake-up is buffered. \<open>rates\<close> records
  the samples handed to the throughput tracker (peer and item count; the elapsed
  time is wall-clock and left out). \<open>forwarded\<close> records the call-outs to
  \<open>forwardAccountTask\<close>, which is not in the source file. Modelled from the spec:
  \<open>common.StorageSize\<close> is not declared in the source file and the spec's progress
  record gives the byte counters as unsigned 64-bit integers.
\<close>

record 'sch syncer =
  db :: kvStore
  snapped :: bool
  healer :: "'sch healTask"
  update :: bool
  peers :: "string set"
  rates :: "(string \<times> nat) list"
  statelessPeers :: "string set"
  bytecodeIdlers :: "string set"
  bytecodeReqs :: "64 word \<rightharpoonup> reqRef"
  bytecodeSynced :: "64 word"
  bytecodeBytes :: "64 word"
  bytecodeHealIdlers :: "string set"
  bytecodeHealReqs :: "64 word \<rightharpoonup> reqRef"
  bytecodeHealSynced :: "64 word"
  bytecodeHealBytes :: "64 word"
  bytecodeHealDups :: "64 word"
  bytecodeHealNops :: "64 word"
  stateWriter :: batch
  tasks :: "taskRef list"
  accountHealed :: "64 word"
  accountHealedBytes :: "64 word"
  storageHealed :: "64 word"
  storageHealedBytes :: "64 word"
  forwarded :: "taskRef list"
  reqStore :: "reqRef \<Rightarrow> bytecodeRequest"
  healReqStore :: "reqRef \<Rightarrow> bytecodeHealRequest"
  taskStore :: "taskRef \<Rightarrow> accountTask"
  nextRef :: nat

section \<open>Outcomes\<close>

text \<open>
  A Go function returns, panics (nil dereference, index out of range, negative
  capacity in \<open>make\<close>) or, through \<open>log.Crit\<close>, ends the process.
\<close>

datatype 'a outcome = Returned 'a | Panic | Fatal

datatype error = UnexpectedBytecode

section \<open>NewSyncer\<close>

text \<open>
  A syncer with empty maps and zero counters. The stores hold a fixed blank object
  at every address that has not been allocated yet.
\<close>

definition blankRequest :: bytecodeRequest where
  "blankRequest = \<lparr>req_peer = [], req_id = 0, req_timeout = Stopped, req_stale = True,
                    req_hashes = [], req_task = 0\<rparr>"

definition blankHealRequest :: bytecodeHealRequest where
  "blankHealRequest = \<lparr>hreq_peer = [], hreq_id = 0, hreq_timeout = Stopped, hreq_stale = True,
                        hreq_hashes = []\<rparr>"

definition blankTask :: accountTask where
  "blankTask = \<lparr>Next = 0, Last = 0, res = None, pend = 0, needCode = [], codeTasks = {}\<rparr>"

definition NewSyncer :: "kvStore \<Rightarrow> 'sch \<Rightarrow> 'sch syncer" where
  "NewSyncer d sch =
     \<lparr>db = d, snapped = False,
      healer = \<lparr>scheduler = sch, trieTasks = Map.empty, h_codeTasks = {}\<rparr>,
      update = False, peers = {}, rates = [], statelessPeers = {},
      bytecodeIdlers = {}, bytecodeReqs = Map.empty, bytecodeSynced = 0, bytecodeBytes = 0,
      bytecodeHealIdlers = {}, bytecodeHealReqs = Map.empty, bytecodeHealSynced = 0,
      bytecodeHealBytes = 0, bytecodeHealDups = 0, bytecodeHealNops = 0,
      stateWriter = [], tasks = [], accountHealed = 0, accountHealedBytes = 0,
      storageHealed = 0, storageHealedBytes = 0, forwarded = [],
      reqStore = (\<lambda>_. blankRequest), healReqStore = (\<lambda>_. blankHealRequest),
      taskStore = (\<lambda>_. blankTask), nextRef = 0\<rparr>"

section \<open>loadSyncStatus\<close>

text \<open>
  The persisted checkpoint. \<open>rawdb.ReadSnapshotSyncStatus\<close> and \<open>json.Unmarshal\<close> are
  outside the source file: the stored bytes (if any) and the decoder are inputs.
\<close>

record SyncProgress =
  Tasks :: "accountTask list"
  BytecodeSynced :: "64 word"
  BytecodeBytes :: "64 word"
  BytecodeHealSynced :: "64 word"
  BytecodeHealBytes :: "64 word"

text \<open>Appending a newly allocated task object to \<open>s.tasks\<close>.\<close>

definition appendTask :: "'sch syncer \<Rightarrow> accountTask \<Rightarrow> 'sch syncer" where
  "appendTask s t =
     s\<lparr>taskStore := (taskStore s)(nextRef s := t), tasks := tasks s @ [nextRef s],
       nextRef := nextRef s + 1\<rparr>"

definition chunkStep :: int where
  "chunkStep = 2 ^ 256 div int accountConcurrency - 1"

text \<open>One round of the loop \<open>for i := 0; i < accountConcurrency; i++\<close>.\<close>

definition chunkRound :: "'sch syncer \<times> hash \<Rightarrow> nat \<Rightarrow> 'sch syncer \<times> hash" where
  "chunkRound st i =
     (let s = fst st; next = snd st;
          last0 = BigToHash (Big next + chunkStep);
          last = (if i = accountConcurrency - 1
                  then 0xffffffffffffffffffffffffffffffffffffffffffffffffffffffffffffffff
                  else last0);
          s' = appendTask s \<lparr>Next = next, Last = last, res = None, pend = 0, needCode = [],
                              codeTasks = {}\<rparr>
      in (s', BigToHash (Big last + 1)))"

definition loadSyncStatus ::
  "(byte list \<Rightarrow> SyncProgress option) \<Rightarrow> byte list option \<Rightarrow> 'sch syncer \<Rightarrow> 'sch syncer" where
  "loadSyncStatus decode status s =
     (case (case status of None \<Rightarrow> None | Some raw \<Rightarrow> decode raw) of
        Some progress \<Rightarrow>
          (let s1 = foldl appendTask (s\<lparr>tasks := []\<rparr>) (Tasks progress)
           in s1\<lparr>snapped := (length (tasks s1) = 0),
                 bytecodeSynced := BytecodeSynced progress,
                 bytecodeBytes := BytecodeBytes progress,
                 bytecodeHealSynced := BytecodeHealSynced progress,
                 bytecodeHealBytes := BytecodeHealBytes progress\<rparr>)
      | None \<Rightarrow>
          (let s0 = s\<lparr>bytecodeSynced := 0, bytecodeBytes := 0,
                      bytecodeHealSynced := 0, bytecodeHealBytes := 0\<rparr>
           in fst (foldl chunkRound (s0, 0) [0..<accountConcurrency])))"

section \<open>Task assignment\<close>

text \<open>
  \<open>rand.Int63\<close> is outside the repository: the raw 64-bit outputs of the generator are
  the sequence \<open>rng\<close>, read at a position that advances with every draw; \<open>Int63\<close>
  keeps the low 63 bits. The loop draws until the id is non-zero and not a key of
  the ledger, so it need not return: not returning is \<open>None\<close>.
\<close>

definition Int63 :: "(nat \<Rightarrow> 64 word) \<Rightarrow> nat \<Rightarrow> 64 word" where
  "Int63 rng n = take_bit 63 (rng n)"

partial_function (option) allocReqid ::
  "(nat \<Rightarrow> 64 word) \<Rightarrow> (64 word \<rightharpoonup> reqRef) \<Rightarrow> nat \<Rightarrow> (64 word \<times> nat) option" where
  "allocReqid rng ledger n =
     (let reqid = Int63 rng n
      in if reqid = 0 then allocReqid rng ledger (n + 1)
         else if ledger reqid \<noteq> None then allocReqid rng ledger (n + 1)
         else Some (reqid, n + 1))"

text \<open>
  Iterating a Go map visits its keys in an order the runtime chooses; the order is an
  input (a list of candidate keys), and only keys that are in the set are visited.
  \<open>idleCandidates\<close> is the first loop of the assigners: the idle peers that are not
  stateless, each with its capacity estimate (\<open>s.rates.Capacity\<close>, an input).
\<close>

definition idleCandidates ::
  "string list \<Rightarrow> (string \<Rightarrow> int) \<Rightarrow> string set \<Rightarrow> string set \<Rightarrow> (string \<times> int) list" where
  "idleCandidates order capacity idlers stateless =
     map (\<lambda>p. (p, capacity p)) (filter (\<lambda>p. p \<in> idlers \<and> p \<notin> stateless) order)"

text \<open>
  \<open>sort.Sort(sort.Reverse(idlers))\<close>: highest capacity first. Go's sort is not
  stable; peers of equal capacity come out in some order, which here is the order
  of the map iteration, itself arbitrary.
\<close>

definition sortIdlers :: "(string \<times> int) list \<Rightarrow> (string \<times> int) list" where
  "sortIdlers xs = sort_key (\<lambda>pc. - snd pc) xs"

text \<open>
  The loop \<open>for hash := range codeTasks { delete; append; if len(hashes) >= cap { break } }\<close>.
\<close>

fun drain :: "hash list \<Rightarrow> int \<Rightarrow> hash set \<Rightarrow> hash list \<Rightarrow> hash set \<times> hash list" where
  "drain [] cap ct hashes = (ct, hashes)"
| "drain (h # order) cap ct hashes =
     (if h \<in> ct
      then (let ct' = ct - {h}; hashes' = hashes @ [h]
            in if int (length hashes') \<ge> cap then (ct', hashes') else drain order cap ct' hashes')
      else drain order cap ct hashes)"

definition capRequest :: "int \<Rightarrow> int" where
  "capRequest cap = (if cap > maxCodeRequestCount then maxCodeRequestCount else cap)"

text \<open>
  The loop over \<open>s.tasks\<close> in \<open>assignBytecodeTasks\<close>. The result carries the syncer, the
  position of the random generator and the requests issued (each one is sent to its
  peer by \<open>RequestByteCodes(reqid, hashes, maxRequestSize)\<close> on a goroutine of its own).
\<close>

fun assignLoop ::
  "(nat \<Rightarrow> 64 word) \<Rightarrow> (taskRef \<Rightarrow> hash list) \<Rightarrow> taskRef list \<Rightarrow> (string \<times> int) list
     \<Rightarrow> 'sch syncer \<Rightarrow> nat \<Rightarrow> reqRef list \<Rightarrow> ('sch syncer \<times> nat \<times> reqRef list) outcome option" where
  "assignLoop rng order [] idlers s n out = Some (Returned (s, n, out))"
| "assignLoop rng order (t # ts) idlers s n out =
     (let task = taskStore s t
      in if res task = None then assignLoop rng order ts idlers s n out
         else if codeTasks task = {} then assignLoop rng order ts idlers s n out
         else (case idlers of
                 [] \<Rightarrow> Some (Returned (s, n, out))
               | (idle, cap0) # idlers' \<Rightarrow>
                   (case allocReqid rng (bytecodeReqs s) n of
                      None \<Rightarrow> None
                    | Some (reqid, n') \<Rightarrow>
                        (let cap = capRequest cap0
                         in if cap < 0 then Some Panic
                            else (let (ct, hashes) = drain (order t) cap (codeTasks task) [];
                                      s1 = s\<lparr>taskStore := (taskStore s)(t := task\<lparr>codeTasks := ct\<rparr>)\<rparr>;
                                      r = nextRef s1;
                                      req = \<lparr>req_peer = idle, req_id = reqid, req_timeout = Armed,
                                             req_stale = False, req_hashes = hashes, req_task = t\<rparr>;
                                      s2 = s1\<lparr>reqStore := (reqStore s1)(r := req),
                                              nextRef := r + 1,
                                              bytecodeReqs := (bytecodeReqs s1)(reqid \<mapsto> r),
                                              bytecodeIdlers := bytecodeIdlers s1 - {idle}\<rparr>
                                  in assignLoop rng order ts idlers' s2 n' (out @ [r]))))))"

definition assignBytecodeTasks ::
  "(nat \<Rightarrow> 64 word) \<Rightarrow> string list \<Rightarrow> (string \<Rightarrow> int) \<Rightarrow> (taskRef \<Rightarrow> hash list)
     \<Rightarrow> 'sch syncer \<Rightarrow> nat \<Rightarrow> ('sch syncer \<times> nat \<times> reqRef list) outcome option" where
  "assignBytecodeTasks rng peerOrder capacity order s n =
     (let idlers = idleCandidates peerOrder capacity (bytecodeIdlers s) (statelessPeers s)
      in if length idlers = 0 then Some (Returned (s, n, []))
         else assignLoop rng order (tasks s) (sortIdlers idlers) s n [])"

text \<open>
  \<open>assignBytecodeHealTasks\<close>. The scheduler's \<open>Pending\<close> and \<open>Missing\<close> are inputs;
  \<open>Missing\<close> returns the trie nodes with their paths, the code hashes and the
  scheduler's new state. Each round either returns or takes the first idle peer.
\<close>

definition topUp ::
  "('sch \<Rightarrow> int \<Rightarrow> (hash \<times> byte list list) list \<times> hash list \<times> 'sch) \<Rightarrow> 'sch syncer \<Rightarrow> 'sch syncer" where
  "topUp Missing s =
     (let hl = healer s;
          have = int (card (dom (trieTasks hl))) + int (card (h_codeTasks hl));
          want = maxTrieRequestCount + maxCodeRequestCount
      in if have < want
         then (let (nodes, codes, sch') = Missing (scheduler hl) (want - have)
               in s\<lparr>healer := hl\<lparr>scheduler := sch',
                                  trieTasks := foldl (\<lambda>m np. m(fst np \<mapsto> snd np)) (trieTasks hl) nodes,
                                  h_codeTasks := foldl (\<lambda>c h. insert h c) (h_codeTasks hl) codes\<rparr>\<rparr>)
         else s)"

fun healLoop ::
  "(nat \<Rightarrow> 64 word) \<Rightarrow> hash list \<Rightarrow> ('sch \<Rightarrow> int)
     \<Rightarrow> ('sch \<Rightarrow> int \<Rightarrow> (hash \<times> byte list list) list \<times> hash list \<times> 'sch)
     \<Rightarrow> (string \<times> int) list \<Rightarrow> 'sch syncer \<Rightarrow> nat \<Rightarrow> reqRef list
     \<Rightarrow> ('sch syncer \<times> nat \<times> reqRef list) outcome option" where
  "healLoop rng order Pending Missing idlers s n out =
     (if \<not> (h_codeTasks (healer s) \<noteq> {} \<or> Pending (scheduler (healer s)) > 0)
      then Some (Returned (s, n, out))
      else (let s0 = topUp Missing s
            in if h_codeTasks (healer s0) = {} then Some (Returned (s0, n, out))
               else (case idlers of
                       [] \<Rightarrow> Some (Returned (s0, n, out))
                     | (idle, cap0) # idlers' \<Rightarrow>
                         (case allocReqid rng (bytecodeHealReqs s0) n of
                            None \<Rightarrow> None
                          | Some (reqid, n') \<Rightarrow>
                              (let cap = capRequest cap0
                               in if cap < 0 then Some Panic
                                  else (let (ct, hashes) = drain order cap (h_codeTasks (healer s0)) [];
                                            s1 = s0\<lparr>healer := (healer s0)\<lparr>h_codeTasks := ct\<rparr>\<rparr>;
                                            r = nextRef s1;
                                            req = \<lparr>hreq_peer = idle, hreq_id = reqid,
                                                   hreq_timeout = Armed, hreq_stale = False,
                                                   hreq_hashes = hashes\<rparr>;
                                            s2 = s1\<lparr>healReqStore := (healReqStore s1)(r := req),
                                                    nextRef := r + 1,
                                                    bytecodeHealReqs := (bytecodeHealReqs s1)(reqid \<mapsto> r),
                                                    bytecodeHealIdlers := bytecodeHealIdlers s1 - {idle}\<rparr>
                                        in healLoop rng order Pending Missing idlers' s2 n'
                                             (out @ [r])))))))"

declare healLoop.simps [simp del]

definition assignBytecodeHealTasks ::
  "(nat \<Rightarrow> 64 word) \<Rightarrow> string list \<Rightarrow> (string \<Rightarrow> int) \<Rightarrow> hash list \<Rightarrow> ('sch \<Rightarrow> int)
     \<Rightarrow> ('sch \<Rightarrow> int \<Rightarrow> (hash \<times> byte list list) list \<times> hash list \<times> 'sch)
     \<Rightarrow> 'sch syncer \<Rightarrow> nat \<Rightarrow> ('sch syncer \<times> nat \<times> reqRef list) outcome option" where
  "assignBytecodeHealTasks rng peerOrder capacity order Pending Missing s n =
     (let idlers = idleCandidates peerOrder capacity (bytecodeHealIdlers s) (statelessPeers s)
      in if length idlers = 0 then Some (Returned (s, n, []))
         else healLoop rng order Pending Missing (sortIdlers idlers) s n [])"

section \<open>Reverting a request\<close>

text \<open>
  \<open>scheduleRevertBytecodeRequest\<close> blocks in a \<open>select\<close> over three channels; the
  result is the set of branches that can be taken, given whether the event loop is
  receiving on \<open>req.revert\<close> and whether \<open>req.cancel\<close> is closed.
\<close>

datatype revertSignal = LoopNotified | CycleCancelled | AlreadyReverted

definition scheduleRevertBytecodeRequest ::
  "'sch syncer \<Rightarrow> bool \<Rightarrow> bool \<Rightarrow> reqRef \<Rightarrow> revertSignal set" where
  "scheduleRevertBytecodeRequest s listening cancelled r =
     (if listening then {LoopNotified} else {})
     \<union> (if cancelled then {CycleCancelled} else {})
     \<union> (if req_stale (reqStore s r) then {AlreadyReverted} else {})"

text \<open>The loop \<open>for _, hash := range req.hashes { req.task.codeTasks[hash] = struct{}{} }\<close>.\<close>

fun requeue :: "'sch syncer \<Rightarrow> taskRef \<Rightarrow> hash list \<Rightarrow> 'sch syncer" where
  "requeue s t [] = s"
| "requeue s t (h # hs) =
     requeue (s\<lparr>taskStore := (taskStore s)
                 (t := (taskStore s t)\<lparr>codeTasks := insert h (codeTasks (taskStore s t))\<rparr>)\<rparr>) t hs"

definition revertBytecodeRequest :: "'sch syncer \<Rightarrow> reqRef \<Rightarrow> 'sch syncer" where
  "revertBytecodeRequest s r =
     (if req_stale (reqStore s r) then s
      else (let s1 = s\<lparr>reqStore := (reqStore s)(r := (reqStore s r)\<lparr>req_stale := True\<rparr>)\<rparr>;
                s2 = s1\<lparr>bytecodeReqs := (bytecodeReqs s1)(req_id (reqStore s1 r) := None)\<rparr>;
                t = snd (timerStop (req_timeout (reqStore s2 r)));
                s3 = s2\<lparr>reqStore := (reqStore s2)(r := (reqStore s2 r)\<lparr>req_timeout := t\<rparr>)\<rparr>
            in requeue s3 (req_task (reqStore s3 r)) (req_hashes (reqStore s3 r))))"

section \<open>Integrating a delivered response\<close>

text \<open>
  The call-out \<open>forwardAccountTask\<close> is outside the source file; the call is recorded.
\<close>

definition forwardAccountTask :: "'sch syncer \<Rightarrow> taskRef \<Rightarrow> 'sch syncer" where
  "forwardAccountTask s t = s\<lparr>forwarded := forwarded s @ [t]\<rparr>"

text \<open>The loop \<open>for j, account := range res.task.res.accounts\<close>.\<close>

fun unmarkNeedCode :: "hash \<Rightarrow> stateAccount list \<Rightarrow> nat \<Rightarrow> accountTask \<Rightarrow> accountTask outcome" where
  "unmarkNeedCode h [] j t = Returned t"
| "unmarkNeedCode h (a # as) j t =
     (if j < length (needCode t)
      then (if needCode t ! j \<and> h = BytesToHash (CodeHash a)
            then unmarkNeedCode h as (j + 1)
                   (t\<lparr>needCode := (needCode t)[j := False], pend := pend t - 1\<rparr>)
            else unmarkNeedCode h as (j + 1) t)
      else Panic)"

text \<open>The loop \<open>for i, hash := range res.hashes\<close>, with the batch and the count.\<close>

fun integrateCodes ::
  "'sch syncer \<Rightarrow> taskRef \<Rightarrow> hash list \<Rightarrow> nat \<Rightarrow> blob list \<Rightarrow> batch \<Rightarrow> 64 word
     \<Rightarrow> ('sch syncer \<times> batch \<times> 64 word) outcome" where
  "integrateCodes s t [] i cs b n = Returned (s, b, n)"
| "integrateCodes s t (h # hs) i cs b n =
     (if i < length cs
      then (case cs ! i of
              None \<Rightarrow>
                integrateCodes
                  (s\<lparr>taskStore := (taskStore s)
                      (t := (taskStore s t)\<lparr>codeTasks := insert h (codeTasks (taskStore s t))\<rparr>)\<rparr>)
                  t hs (i + 1) cs b n
            | Some code \<Rightarrow>
                (case res (taskStore s t) of
                   None \<Rightarrow> Panic
                 | Some ar \<Rightarrow>
                     (case unmarkNeedCode h (accounts ar) 0 (taskStore s t) of
                        Returned t' \<Rightarrow>
                          integrateCodes (s\<lparr>taskStore := (taskStore s)(t := t')\<rparr>) t hs (i + 1) cs
                            (WriteCode b h code) (n + 1)
                      | Panic \<Rightarrow> Panic
                      | Fatal \<Rightarrow> Fatal)))
      else Panic)"

text \<open>\<open>writeOk\<close> tells whether \<open>batch.Write\<close> succeeds; a failure ends in \<open>log.Crit\<close>.\<close>

definition processBytecodeResponse ::
  "bool \<Rightarrow> 'sch syncer \<Rightarrow> bytecodeResponse \<Rightarrow> 'sch syncer outcome" where
  "processBytecodeResponse writeOk s rsp =
     (case integrateCodes s (res_task rsp) (res_hashes rsp) 0 (res_codes rsp) [] 0 of
        Returned (s1, b, codes) \<Rightarrow>
          (let bytes = (word_of_nat (ValueSize b) :: 64 word)
           in if \<not> writeOk then Fatal
              else (let s2 = s1\<lparr>db := batchWrite (db s1) b,
                                bytecodeSynced := bytecodeSynced s1 + codes,
                                bytecodeBytes := bytecodeBytes s1 + bytes\<rparr>
                    in if pend (taskStore s2 (res_task rsp)) = 0
                       then Returned (forwardAccountTask s2 (res_task rsp))
                       else Returned s2))
      | Panic \<Rightarrow> Panic
      | Fatal \<Rightarrow> Fatal)"

section \<open>Response validation (onByteCodes)\<close>

text \<open>
  The inner loop \<open>for j < len(req.hashes) && !bytes.Equal(hash, req.hashes[j][:]) { j++ }\<close>.
\<close>

function skipMisses :: "hash \<Rightarrow> hash list \<Rightarrow> nat \<Rightarrow> nat" where
  "skipMisses h hs j = (if j < length hs \<and> h \<noteq> hs ! j then skipMisses h hs (j + 1) else j)"
  by pat_completeness auto
termination
  by (relation "measure (\<lambda>(h, hs, j). length hs - j)") auto

declare skipMisses.simps [simp del]

text \<open>
  The outer loop over the delivered blobs, with the manifest cursor \<open>j\<close> and the
  \<open>codes\<close> array being filled; it stops with the error at the first blob that no
  remaining manifest position accounts for. Writing \<open>codes[j]\<close> outside the array
  would panic.
\<close>

fun crossReference ::
  "(byte list \<Rightarrow> hash) \<Rightarrow> hash list \<Rightarrow> blob list \<Rightarrow> nat \<Rightarrow> blob list
     \<Rightarrow> (error + blob list) outcome" where
  "crossReference K hs [] j codes = Returned (Inr codes)"
| "crossReference K hs (b # bs) j codes =
     (let j' = skipMisses (hashOf K b) hs j
      in if j' < length hs
         then (if j' < length codes then crossReference K hs bs (j' + 1) (codes[j' := b])
               else Panic)
         else Returned (Inl UnexpectedBytecode))"

text \<open>
  The last statement of \<open>onByteCodes\<close> is a \<open>select\<close> over \<open>req.deliver\<close>, \<open>req.cancel\<close>
  and \<open>req.stale\<close>. As for \<open>scheduleRevertBytecodeRequest\<close>, the result is the set of
  branches that can be taken, given whether the event loop is receiving and whether
  \<open>req.cancel\<close> is closed: only on the first branch does the response reach the loop.
\<close>

datatype deliverSignal = LoopReceived | DeliveryCancelled | DeliveryStale

definition offerResponse :: "'sch syncer \<Rightarrow> bool \<Rightarrow> bool \<Rightarrow> reqRef \<Rightarrow> deliverSignal set" where
  "offerResponse s listening cancelled r =
     (if listening then {LoopReceived} else {})
     \<union> (if cancelled then {DeliveryCancelled} else {})
     \<union> (if req_stale (reqStore s r) then {DeliveryStale} else {})"

text \<open>
  What a handler has done on the channels when it returns: nothing, the call of
  \<open>scheduleRevertBytecodeRequest\<close> on a request, or the offer of a validated response;
  each with the branches its \<open>select\<close> can take.
\<close>

datatype action =
    NoAction
  | ScheduleRevert reqRef "revertSignal set"
  | Deliver bytecodeResponse "deliverSignal set"

definition onByteCodes ::
  "(byte list \<Rightarrow> hash) \<Rightarrow> bool \<Rightarrow> bool \<Rightarrow> 'sch syncer \<Rightarrow> string \<Rightarrow> 64 word \<Rightarrow> blob list
     \<Rightarrow> ('sch syncer \<times> action \<times> error option) outcome" where
  "onByteCodes K listening cancelled s peer rid bytecodes =
     (let s1 = (if peer \<in> peers s then s\<lparr>bytecodeIdlers := insert peer (bytecodeIdlers s)\<rparr> else s);
          s2 = s1\<lparr>update := True\<rparr>
      in case bytecodeReqs s2 rid of
           None \<Rightarrow> Returned (s2, NoAction, None)
         | Some r \<Rightarrow>
             (let req = reqStore s2 r;
                  s3 = s2\<lparr>bytecodeReqs := (bytecodeReqs s2)(rid := None),
                          rates := rates s2 @ [(peer, length bytecodes)]\<rparr>;
                  stopped = fst (timerStop (req_timeout req));
                  s4 = s3\<lparr>reqStore := (reqStore s3)
                            (r := req\<lparr>req_timeout := snd (timerStop (req_timeout req))\<rparr>)\<rparr>
              in if \<not> stopped then Returned (s4, NoAction, None)
                 else if length bytecodes = 0
                 then (let s5 = s4\<lparr>statelessPeers := insert peer (statelessPeers s4)\<rparr>
                       in Returned (s5, ScheduleRevert r
                                          (scheduleRevertBytecodeRequest s5 listening cancelled r),
                                    None))
                 else (case crossReference K (req_hashes req) bytecodes 0
                              (replicate (length (req_hashes req)) None) of
                         Returned (Inl e) \<Rightarrow>
                           Returned (s4, ScheduleRevert r
                                           (scheduleRevertBytecodeRequest s4 listening cancelled r),
                                     Some e)
                       | Returned (Inr codes) \<Rightarrow>
                           Returned (s4, Deliver \<lparr>res_task = req_task req,
                                                 res_hashes = req_hashes req,
                                                 res_codes = codes\<rparr>
                                           (offerResponse s4 listening cancelled r), None)
                       | Panic \<Rightarrow> Panic
                       | Fatal \<Rightarrow> Fatal)))"

section \<open>The event loop of Sync\<close>



section \<open>Flat states during healing (onHealState)\<close>

text \<open>
  \<open>rlp.DecodeBytes\<close> into a \<open>types.StateAccount\<close> and \<open>snapshot.SlimAccountRLP\<close> are
  outside the source file and are inputs; \<open>writeOk\<close> tells whether the flush of the
  shared batch succeeds (its error is ignored).
\<close>

definition HashLength :: nat where
  "HashLength = 32"

definition flushStateWriter :: "bool \<Rightarrow> 'sch syncer \<Rightarrow> 'sch syncer" where
  "flushStateWriter writeOk s =
     (if ValueSize (stateWriter s) > IdealBatchSize
      then s\<lparr>db := (if writeOk then batchWrite (db s) (stateWriter s) else db s),
             stateWriter := []\<rparr>
      else s)"

definition onHealState ::
  "(byte list \<Rightarrow> stateAccount option) \<Rightarrow> (64 word \<Rightarrow> nat \<Rightarrow> hash \<Rightarrow> byte list \<Rightarrow> byte list)
     \<Rightarrow> bool \<Rightarrow> 'sch syncer \<Rightarrow> byte list list \<Rightarrow> byte list \<Rightarrow> 'sch syncer \<times> error option" where
  "onHealState DecodeBytes SlimAccountRLP writeOk s paths val =
     (case (if length paths = 1
            then (case DecodeBytes val of
                    None \<Rightarrow> None
                  | Some account \<Rightarrow>
                      (let entry = SlimAccountRLP (Nonce account) (Balance account) (Root account)
                                    (CodeHash account)
                       in Some (s\<lparr>stateWriter := WriteAccountSnapshot (stateWriter s)
                                                    (BytesToHash (paths ! 0)) entry,
                                  accountHealed := accountHealed s + 1,
                                  accountHealedBytes := accountHealedBytes s
                                     + word_of_nat (1 + HashLength + length entry)\<rparr>)))
            else Some s) of
        None \<Rightarrow> (s, None)
      | Some s1 \<Rightarrow>
          (let s2 = (if length paths = 2
                     then s1\<lparr>stateWriter := WriteStorageSnapshot (stateWriter s1)
                                               (BytesToHash (paths ! 0)) (BytesToHash (paths ! 1)) val,
                             storageHealed := storageHealed s1 + 1,
                             storageHealedBytes := storageHealedBytes s1
                                + word_of_nat (1 + 2 * HashLength + length val)\<rparr>
                     else s1)
           in (flushStateWriter writeOk s2, None)))"

section \<open>A state for the scenarios\<close>

text \<open>
  One registered peer with one request in flight: id 7, manifest \<open>[1, 2, 3]\<close>, filling
  the task at address 0. In the scenarios the hash of a blob is its big-endian value,
  so the blobs \<open>[1]\<close>, \<open>[2]\<close>, \<open>[3]\<close> have the hashes 1, 2 and 3.
\<close>

definition scenario :: "unit syncer" where
  "scenario =
     (NewSyncer Map.empty ())
       \<lparr>peers := {''peer1''}, bytecodeReqs := [7 \<mapsto> 0],
        reqStore := (\<lambda>_. blankRequest)
          (0 := \<lparr>req_peer = ''peer1'', req_id = 7, req_timeout = Armed, req_stale = False,
                 req_hashes = [1, 2, 3], req_task = 0\<rparr>),
        taskStore := (\<lambda>_. blankTask)
          (0 := \<lparr>Next = 0, Last = 0, res = Some \<lparr>accounts = []\<rparr>, pend = 3, needCode = [],
                 codeTasks = {}\<rparr>),
        tasks := [0], nextRef := 1\<rparr>"


definition staleScenario :: "unit syncer" where
  "staleScenario =
     scenario\<lparr>reqStore := (reqStore scenario)(0 := (reqStore scenario 0)\<lparr>req_stale := True\<rparr>)\<rparr>"

text \<open>
  Before the assignment: the peer is idle in both phases, nothing is in flight, the
  task at address 0 and the healer have the hashes 1, 2 and 3 pending.
\<close>

definition pendingScenario :: "unit syncer" where
  "pendingScenario =
     (NewSyncer Map.empty ())
       \<lparr>peers := {''peer1''}, bytecodeIdlers := {''peer1''}, bytecodeHealIdlers := {''peer1''},
        healer := \<lparr>scheduler = (), trieTasks = Map.empty, h_codeTasks = {1, 2, 3}\<rparr>,
        taskStore := (\<lambda>_. blankTask)
          (0 := \<lparr>Next = 0, Last = 0, res = Some \<lparr>accounts = []\<rparr>, pend = 3, needCode = [],
                 codeTasks = {1, 2, 3}\<rparr>),
        tasks := [0], nextRef := 1\<rparr>"

section \<open>The validation loop\<close>

lemma skipMisses_hit: "j < length hs \<Longrightarrow> hs ! j = h \<Longrightarrow> skipMisses h hs j = j"
  by (subst skipMisses.simps) simp

lemma skipMisses_step:
  "j < length hs \<Longrightarrow> hs ! j \<noteq> h \<Longrightarrow> skipMisses h hs j = skipMisses h hs (Suc j)"
  by (subst skipMisses.simps) auto





lemma crossReference_aligned:
  assumes "distinct hs" and "length served = length hs"
    and "\<forall>k<length hs. \<forall>b. served ! k = Some b \<longrightarrow> hashOf K b = hs ! k"
  shows "j \<le> length hs \<Longrightarrow> length codes = length hs \<Longrightarrow>
         drop j codes = replicate (length hs - j) None \<Longrightarrow>
         crossReference K hs (map the (filter (\<lambda>x. x \<noteq> None) (drop j served))) j codes
           = Returned (Inr (take j codes @ map (case_option None id) (drop j served)))"
proof (induction "length hs - j" arbitrary: j codes)
  case 0
  then show ?case using assms(2) by simp
next
  case (Suc n)
  then have jlt: "j < length hs" by simp
  then have d: "drop j served = served ! j # drop (j + 1) served"
    using assms(2) by (simp add: Cons_nth_drop_Suc)
  have cj: "codes ! j = None"
  proof -
    have "drop j codes ! 0 = codes ! (j + 0)"
      using Suc.prems(2) jlt by (intro nth_drop) simp
    moreover have "drop j codes ! 0 = None"
      using Suc.prems(3) jlt by simp
    ultimately show ?thesis by simp
  qed
  have dc: "drop (j + 1) codes = replicate (length hs - (j + 1)) None"
  proof -
    have "drop (j + 1) codes = drop 1 (drop j codes)" by simp
    also have "\<dots> = replicate (length hs - (j + 1)) None"
      using Suc.prems(3) by simp
    finally show ?thesis .
  qed
  have tk: "take (j + 1) codes = take j codes @ [None]"
    using cj jlt Suc.prems(2) by (simp add: take_Suc_conv_app_nth)
  show ?case
  proof (cases "served ! j")
    case None
    let ?bs = "map the (filter (\<lambda>x. x \<noteq> None) (drop (j + 1) served))"
    have IH: "crossReference K hs ?bs (j + 1) codes
           = Returned (Inr (take (j + 1) codes @ map (case_option None id) (drop (j + 1) served)))"
      using Suc.hyps(1) [of "j + 1" codes] Suc.hyps(2) Suc.prems jlt dc by simp
    have step: "crossReference K hs ?bs j codes = crossReference K hs ?bs (j + 1) codes"
    proof (cases ?bs)
      case Nil
      then show ?thesis by simp
    next
      case (Cons b rest)
      then have "b \<in> set ?bs" by simp
      then have "Some b \<in> set (drop (j + 1) served)"
        by auto
      then obtain k where k: "k < length (drop (j + 1) served)" "drop (j + 1) served ! k = Some b"
        by (auto simp: in_set_conv_nth)
      then have kk: "j + 1 + k < length hs" "served ! (j + 1 + k) = Some b"
        using assms(2) by auto
      then have "hashOf K b = hs ! (j + 1 + k)" using assms(3) by blast
      moreover have "hs ! (j + 1 + k) \<noteq> hs ! j"
        using assms(1) kk(1) jlt by (simp add: nth_eq_iff_index_eq)
      ultimately have "skipMisses (hashOf K b) hs j = skipMisses (hashOf K b) hs (j + 1)"
        using jlt skipMisses_step [of j hs "hashOf K b"] by simp
      then show ?thesis using Cons by simp
    qed
    show ?thesis using None d IH step tk by simp
  next
    case (Some b)
    have hb: "hashOf K b = hs ! j" using assms(3) jlt Some by blast
    have sk: "skipMisses (hashOf K b) hs j = j"
      using hb jlt by (simp add: skipMisses_hit)
    have IH: "crossReference K hs (map the (filter (\<lambda>x. x \<noteq> None) (drop (j + 1) served))) (j + 1) (codes[j := b])
           = Returned (Inr (take (j + 1) (codes[j := b]) @ map (case_option None id) (drop (j + 1) served)))"
      using Suc.hyps(1) [of "j + 1" "codes[j := b]"] Suc.hyps(2) Suc.prems jlt dc by simp
    have tk': "take (j + 1) (codes[j := b]) = take j codes @ [b]"
      using jlt Suc.prems(2) by (simp add: take_Suc_conv_app_nth)
    show ?thesis using Some d IH sk tk' jlt Suc.prems(2) by simp
  qed
qed

lemma onByteCodes_armed:
  assumes "bytecodeReqs s rid = Some r" and "req_timeout (reqStore s r) = Armed"
    and "bytecodes \<noteq> []"
  shows "onByteCodes K listening cancelled s peer rid bytecodes =
           (case crossReference K (req_hashes (reqStore s r)) bytecodes 0
                   (replicate (length (req_hashes (reqStore s r))) None) of
              Returned (Inl e) \<Rightarrow>
                Returned
                  ((if peer \<in> peers s then s\<lparr>bytecodeIdlers := insert peer (bytecodeIdlers s)\<rparr>
                    else s)
                     \<lparr>update := True, bytecodeReqs := (bytecodeReqs s)(rid := None),
                      rates := rates s @ [(peer, length bytecodes)],
                      reqStore := (reqStore s)(r := (reqStore s r)\<lparr>req_timeout := Stopped\<rparr>)\<rparr>,
                   ScheduleRevert r
                     ((if listening then {LoopNotified} else {})
                      \<union> (if cancelled then {CycleCancelled} else {})
                      \<union> (if req_stale (reqStore s r) then {AlreadyReverted} else {})),
                   Some e)
            | Returned (Inr codes) \<Rightarrow>
                Returned
                  ((if peer \<in> peers s then s\<lparr>bytecodeIdlers := insert peer (bytecodeIdlers s)\<rparr>
                    else s)
                     \<lparr>update := True, bytecodeReqs := (bytecodeReqs s)(rid := None),
                      rates := rates s @ [(peer, length bytecodes)],
                      reqStore := (reqStore s)(r := (reqStore s r)\<lparr>req_timeout := Stopped\<rparr>)\<rparr>,
                   Deliver \<lparr>res_task = req_task (reqStore s r),
                            res_hashes = req_hashes (reqStore s r), res_codes = codes\<rparr>
                     ((if listening then {LoopReceived} else {})
                      \<union> (if cancelled then {DeliveryCancelled} else {})
                      \<union> (if req_stale (reqStore s r) then {DeliveryStale} else {})),
                   None)
            | Panic \<Rightarrow> Panic
            | Fatal \<Rightarrow> Fatal)"
  using assms
  by (simp add: onByteCodes_def Let_def timerStop_def scheduleRevertBytecodeRequest_def
        offerResponse_def split: outcome.splits sum.splits)

lemma scenario_hashes:
  "hashOf BytesToHash (Some [1]) = 1" "hashOf BytesToHash (Some [2]) = 2"
  "hashOf BytesToHash (Some [3]) = 3"
  by (simp_all add: hashOf_def BytesToHash_def bigEndian_def)

text \<open>
  C1, as the claim states it, fails where it says that the response is delivered. The
  event loop closes the \<open>stale\<close> channel of a request before it removes the ledger entry;
  a reply that is handled in between finds the request in the ledger with its timer
  armed, validates, and in the final \<open>select\<close> only the \<open>stale\<close> branch can be taken
  while the loop is busy: the aligned response is dropped.
\<close>

theorem onByteCodes_in_order_reply_counterexample:
  "bytecodeReqs staleScenario 7 = Some 0
   \<and> req_timeout (reqStore staleScenario 0) = Armed
   \<and> req_hashes (reqStore staleScenario 0) = [1, 2, 3]
   \<and> map (hashOf BytesToHash) [Some [1], Some [3]] = [1, 3]
   \<and> onByteCodes BytesToHash False False staleScenario ''peer1'' 7 [Some [1], Some [3]]
       = Returned
           (staleScenario
              \<lparr>bytecodeIdlers := {''peer1''}, update := True,
               bytecodeReqs := (bytecodeReqs staleScenario)(7 := None),
               rates := [(''peer1'', 2)],
               reqStore := (reqStore staleScenario)
                 (0 := (reqStore staleScenario 0)\<lparr>req_timeout := Stopped\<rparr>)\<rparr>,
            Deliver \<lparr>res_task = 0, res_hashes = [1, 2, 3],
                     res_codes = [Some [1], None, Some [3]]\<rparr> {DeliveryStale},
            None)
   \<and> LoopReceived \<notin> {DeliveryStale}"
proof -
  have h: "bytecodeReqs staleScenario 7 = Some 0" "req_timeout (reqStore staleScenario 0) = Armed"
    "[Some [1], Some [3 :: byte]] \<noteq> []"
    by (simp_all add: staleScenario_def scenario_def NewSyncer_def)
  have v: "req_hashes (reqStore staleScenario 0) = [1, 2, 3]"
    "req_task (reqStore staleScenario 0) = 0" "req_stale (reqStore staleScenario 0)"
    "peers staleScenario = {''peer1''}" "bytecodeIdlers staleScenario = {}"
    "rates staleScenario = []"
    by (simp_all add: staleScenario_def scenario_def NewSyncer_def)
  have c: "crossReference BytesToHash (req_hashes (reqStore staleScenario 0))
             [Some [1], Some [3]] 0
             (replicate (length (req_hashes (reqStore staleScenario 0))) None)
             = Returned (Inr [Some [1], None, Some [3]])"
    by (simp add: v scenario_hashes skipMisses_hit skipMisses_step)
  note e = onByteCodes_armed [OF h, where K = BytesToHash, unfolded c]
  show ?thesis
    using h(1,2) v(1) by (simp add: e v scenario_hashes)
qed

text \<open>
  C1, amended. A request is in the ledger, its timeout timer has not fired, and its
  manifest has no repeated hash (it is drawn from the key set of the pending map).
  \<open>served\<close> says, for each manifest position, whether the peer omitted it (\<open>None\<close>) or
  served it with a blob of that hash; the reply is the served blobs in manifest order
  and is not empty. Then the validation loop fills a \<open>codes\<close> array of the length of the
  manifest that holds the delivered blob at every served position and \<open>nil\<close> at every
  omitted one, and \<open>onByteCodes\<close> returns no error after offering the response in its
  final \<open>select\<close>: the response reaches the event loop on the \<open>deliver\<close> branch, which is
  the only branch when the cycle is not cancelled and the request has not been reverted;
  a closed \<open>cancel\<close> or \<open>stale\<close> channel lets the \<open>select\<close> drop it.
\<close>

theorem onByteCodes_in_order_reply:
  assumes ledger: "bytecodeReqs s rid = Some r"
    and armed: "req_timeout (reqStore s r) = Armed"
    and dist: "distinct (req_hashes (reqStore s r))"
    and len: "length served = length (req_hashes (reqStore s r))"
    and hashes: "\<forall>j<length (req_hashes (reqStore s r)). \<forall>b.
                   served ! j = Some b \<longrightarrow> hashOf K b = req_hashes (reqStore s r) ! j"
    and reply: "bytecodes = map the (filter (\<lambda>x. x \<noteq> None) served)"
    and nonempty: "bytecodes \<noteq> []"
  shows "\<exists>codes.
           onByteCodes K listening cancelled s peer rid bytecodes =
             Returned
               ((if peer \<in> peers s then s\<lparr>bytecodeIdlers := insert peer (bytecodeIdlers s)\<rparr>
                 else s)
                  \<lparr>update := True, bytecodeReqs := (bytecodeReqs s)(rid := None),
                   rates := rates s @ [(peer, length bytecodes)],
                   reqStore := (reqStore s)(r := (reqStore s r)\<lparr>req_timeout := Stopped\<rparr>)\<rparr>,
                Deliver \<lparr>res_task = req_task (reqStore s r),
                         res_hashes = req_hashes (reqStore s r), res_codes = codes\<rparr>
                  ((if listening then {LoopReceived} else {})
                   \<union> (if cancelled then {DeliveryCancelled} else {})
                   \<union> (if req_stale (reqStore s r) then {DeliveryStale} else {})),
                None)
           \<and> length codes = length (req_hashes (reqStore s r))
           \<and> (\<forall>j<length (req_hashes (reqStore s r)).
                 codes ! j = (case served ! j of None \<Rightarrow> None | Some b \<Rightarrow> b))"
proof -
  let ?hs = "req_hashes (reqStore s r)"
  have "crossReference K ?hs (map the (filter (\<lambda>x. x \<noteq> None) (drop 0 served))) 0
          (replicate (length ?hs) None)
        = Returned (Inr (take 0 (replicate (length ?hs) None)
                         @ map (case_option None id) (drop 0 served)))"
    by (rule crossReference_aligned [OF dist len hashes]) simp_all
  then have cr: "crossReference K ?hs bytecodes 0 (replicate (length ?hs) None)
        = Returned (Inr (map (case_option None id) served))"
    using reply by simp
  note e = onByteCodes_armed [OF ledger armed nonempty, where K = K, unfolded cr]
  have "\<forall>j<length ?hs. map (case_option None id) served ! j
                   = (case served ! j of None \<Rightarrow> None | Some b \<Rightarrow> b)"
    using len by (auto split: option.splits)
  then show ?thesis using len
    by (intro exI [of _ "map (case_option None id) served"]) (simp add: e)
qed

theorem onByteCodes_in_order_reply_witness:
  "bytecodeReqs scenario 7 = Some 0
   \<and> req_timeout (reqStore scenario 0) = Armed
   \<and> distinct (req_hashes (reqStore scenario 0))
   \<and> \<not> req_stale (reqStore scenario 0)
   \<and> (\<exists>s'. onByteCodes BytesToHash True False scenario ''peer1'' 7 [Some [1], Some [3]] =
             Returned (s', Deliver \<lparr>res_task = 0, res_hashes = [1, 2, 3],
                                    res_codes = [Some [1], None, Some [3]]\<rparr> {LoopReceived},
                       None))"
proof -
  have h1: "bytecodeReqs scenario 7 = Some 0"
    and h2: "req_timeout (reqStore scenario 0) = Armed"
    and h3: "distinct (req_hashes (reqStore scenario 0))"
    and h4: "length [Some (Some [1]), None, Some (Some [3 :: byte])]
               = length (req_hashes (reqStore scenario 0))"
    and ns: "\<not> req_stale (reqStore scenario 0)"
    by (simp_all add: scenario_def NewSyncer_def)
  have hs: "req_hashes (reqStore scenario 0) = [1, 2, 3]" "req_task (reqStore scenario 0) = 0"
    by (simp_all add: scenario_def NewSyncer_def)
  have h5: "\<forall>j<length (req_hashes (reqStore scenario 0)). \<forall>b.
              [Some (Some [1]), None, Some (Some [3 :: byte])] ! j = Some b
                \<longrightarrow> hashOf BytesToHash b = req_hashes (reqStore scenario 0) ! j"
    unfolding hs
  proof (intro allI impI)
    fix j :: nat and b :: blob
    assume "j < length [1, 2, 3 :: hash]"
      and sv: "[Some (Some [1]), None, Some (Some [3 :: byte])] ! j = Some b"
    then consider "j = 0" | "j = 1" | "j = 2" by force
    then show "hashOf BytesToHash b = [1, 2, 3] ! j"
      using sv scenario_hashes by cases auto
  qed
  have h6: "[Some [1], Some [3 :: byte]]
              = map the (filter (\<lambda>x. x \<noteq> None) [Some (Some [1]), None, Some (Some [3])])"
    and h7: "[Some [1], Some [3 :: byte]] \<noteq> []"
    by simp_all
  obtain codes where
    r: "onByteCodes BytesToHash True False scenario ''peer1'' 7 [Some [1], Some [3]] =
          Returned
            ((if ''peer1'' \<in> peers scenario
              then scenario\<lparr>bytecodeIdlers := insert ''peer1'' (bytecodeIdlers scenario)\<rparr>
              else scenario)
               \<lparr>update := True, bytecodeReqs := (bytecodeReqs scenario)(7 := None),
                rates := rates scenario @ [(''peer1'', length [Some [1], Some [3 :: byte]])],
                reqStore := (reqStore scenario)(0 := (reqStore scenario 0)\<lparr>req_timeout := Stopped\<rparr>)\<rparr>,
             Deliver \<lparr>res_task = req_task (reqStore scenario 0),
                      res_hashes = req_hashes (reqStore scenario 0), res_codes = codes\<rparr>
               ((if True then {LoopReceived} else {})
                \<union> (if False then {DeliveryCancelled} else {})
                \<union> (if req_stale (reqStore scenario 0) then {DeliveryStale} else {})),
             None)"
    and l: "length codes = length (req_hashes (reqStore scenario 0))"
    and c: "\<forall>j<length (req_hashes (reqStore scenario 0)).
              codes ! j = (case [Some (Some [1]), None, Some (Some [3 :: byte])] ! j of
                             None \<Rightarrow> None | Some b \<Rightarrow> b)"
    using onByteCodes_in_order_reply [OF h1 h2 h3 h4 h5 h6 h7, of True False "''peer1''"]
    by blast
  have "codes = [Some [1], None, Some [3]]"
  proof (rule nth_equalityI)
    show "length codes = length [Some [1], None, Some [3 :: byte]]"
      using l hs by simp
    fix j assume "j < length codes"
    then have jl: "j < length (req_hashes (reqStore scenario 0))" using l by simp
    then consider "j = 0" | "j = 1" | "j = 2" unfolding hs by force
    then show "codes ! j = [Some [1], None, Some [3]] ! j"
      using c [rule_format, OF jl] by cases auto
  qed
  with r h1 h2 h3 ns hs show ?thesis by simp
qed




section \<open>Reverts\<close>

lemma requeue_eq:
  "requeue s t hs =
     s\<lparr>taskStore := (taskStore s)
          (t := (taskStore s t)\<lparr>codeTasks := codeTasks (taskStore s t) \<union> set hs\<rparr>)\<rparr>"
proof (induction hs arbitrary: s)
  case Nil
  then show ?case by simp
next
  case (Cons h hs)
  show ?case by (simp add: Cons.IH cong: if_cong)
qed

lemma revertBytecodeRequest_eq:
  "\<not> req_stale (reqStore s r) \<Longrightarrow>
   revertBytecodeRequest s r =
     s\<lparr>reqStore := (reqStore s)
          (r := (reqStore s r)\<lparr>req_stale := True,
                                 req_timeout := snd (timerStop (req_timeout (reqStore s r)))\<rparr>),
       bytecodeReqs := (bytecodeReqs s)(req_id (reqStore s r) := None),
       taskStore := (taskStore s)
          (req_task (reqStore s r) :=
             (taskStore s (req_task (reqStore s r)))
               \<lparr>codeTasks := codeTasks (taskStore s (req_task (reqStore s r)))
                              \<union> set (req_hashes (reqStore s r))\<rparr>)\<rparr>"
  by (simp add: revertBytecodeRequest_def Let_def requeue_eq)

text \<open>
  C4. The first revert of a request (its \<open>stale\<close> channel still open) closes the channel,
  removes the request's id from the \<open>bytecodeReqs\<close> ledger, stops the timeout timer (it is
  not armed afterwards) and puts every hash of the manifest back into the pending code
  set of the owning task. A revert that finds the channel closed changes nothing, so
  reverting twice is the same as reverting once, and a later
  \<open>scheduleRevertBytecodeRequest\<close> can always leave through the \<open>stale\<close> branch.
\<close>

theorem revertBytecodeRequest_once:
  "(\<not> req_stale (reqStore s r) \<longrightarrow>
      req_stale (reqStore (revertBytecodeRequest s r) r)
      \<and> bytecodeReqs (revertBytecodeRequest s r)
           = (bytecodeReqs s)(req_id (reqStore s r) := None)
      \<and> req_timeout (reqStore (revertBytecodeRequest s r) r)
           = snd (timerStop (req_timeout (reqStore s r)))
      \<and> req_timeout (reqStore (revertBytecodeRequest s r) r) \<noteq> Armed
      \<and> codeTasks (taskStore (revertBytecodeRequest s r) (req_task (reqStore s r)))
           = codeTasks (taskStore s (req_task (reqStore s r))) \<union> set (req_hashes (reqStore s r)))
   \<and> (req_stale (reqStore s r) \<longrightarrow> revertBytecodeRequest s r = s)
   \<and> revertBytecodeRequest (revertBytecodeRequest s r) r = revertBytecodeRequest s r
   \<and> AlreadyReverted
        \<in> scheduleRevertBytecodeRequest (revertBytecodeRequest s r) listening cancelled r"
proof (cases "req_stale (reqStore s r)")
  case True
  then show ?thesis
    by (simp add: revertBytecodeRequest_def scheduleRevertBytecodeRequest_def)
next
  case False
  have st: "req_stale (reqStore (revertBytecodeRequest s r) r)"
    using False by (simp add: revertBytecodeRequest_eq)
  then have again: "revertBytecodeRequest (revertBytecodeRequest s r) r = revertBytecodeRequest s r"
    by (simp add: revertBytecodeRequest_def [of "revertBytecodeRequest s r"])
  show ?thesis
    using False st again
    by (simp add: revertBytecodeRequest_eq scheduleRevertBytecodeRequest_def timerStop_def)
qed

theorem revertBytecodeRequest_once_witness:
  "\<not> req_stale (reqStore scenario 0)
   \<and> req_stale (reqStore (revertBytecodeRequest scenario 0) 0)
   \<and> bytecodeReqs (revertBytecodeRequest scenario 0) 7 = None
   \<and> req_timeout (reqStore (revertBytecodeRequest scenario 0) 0) = Stopped
   \<and> codeTasks (taskStore (revertBytecodeRequest scenario 0) 0) = {1, 2, 3}
   \<and> revertBytecodeRequest (revertBytecodeRequest scenario 0) 0 = revertBytecodeRequest scenario 0"
proof -
  have h: "\<not> req_stale (reqStore scenario 0)"
    by (simp add: scenario_def NewSyncer_def)
  have v: "req_id (reqStore scenario 0) = 7" "req_task (reqStore scenario 0) = 0"
    "req_hashes (reqStore scenario 0) = [1, 2, 3]" "req_timeout (reqStore scenario 0) = Armed"
    "codeTasks (taskStore scenario 0) = {}"
    by (simp_all add: scenario_def NewSyncer_def)
  show ?thesis
    using revertBytecodeRequest_once [of scenario 0 True False] h
    by (auto simp: v timerStop_def)
qed




text \<open>
  C9. For a request id that is not in the ledger \<open>onByteCodes\<close> returns no error and does
  nothing on the channels of a request; the code store, the shared batch, the four
  counters, the pending sets of the tasks and of the healer, the ledger and the
  requests are as before, and the idle flag of the peer is set only if the peer is
  registered. For an unregistered peer the syncer after the call is the syncer before
  it with the wake-up buffered on the \<open>update\<close> channel (the notification is sent before
  the ledger is looked up), and the very same syncer when a wake-up was buffered already.
\<close>

theorem onByteCodes_unknown_request:
  assumes "bytecodeReqs s rid = None"
  shows "\<exists>s'. onByteCodes K listening cancelled s peer rid bytecodes = Returned (s', NoAction, None)
           \<and> db s' = db s \<and> stateWriter s' = stateWriter s
           \<and> bytecodeSynced s' = bytecodeSynced s \<and> bytecodeBytes s' = bytecodeBytes s
           \<and> bytecodeHealSynced s' = bytecodeHealSynced s
           \<and> bytecodeHealBytes s' = bytecodeHealBytes s
           \<and> taskStore s' = taskStore s \<and> healer s' = healer s
           \<and> bytecodeReqs s' = bytecodeReqs s \<and> reqStore s' = reqStore s
           \<and> statelessPeers s' = statelessPeers s
           \<and> bytecodeIdlers s'
               = (if peer \<in> peers s then insert peer (bytecodeIdlers s) else bytecodeIdlers s)
           \<and> (peer \<notin> peers s \<longrightarrow> s' = s\<lparr>update := True\<rparr>)
           \<and> (peer \<notin> peers s \<and> update s \<longrightarrow> s' = s)"
proof -
  let ?s' = "s\<lparr>bytecodeIdlers := (if peer \<in> peers s then insert peer (bytecodeIdlers s)
                                    else bytecodeIdlers s),
               update := True\<rparr>"
  have "onByteCodes K listening cancelled s peer rid bytecodes = Returned (?s', NoAction, None)"
    using assms by (simp add: onByteCodes_def Let_def)
  moreover have "peer \<notin> peers s \<and> update s \<longrightarrow> ?s' = s"
    by auto
  ultimately show ?thesis
    by (intro exI [of _ ?s']) simp
qed

theorem onByteCodes_unknown_request_witness:
  "bytecodeReqs scenario 8 = None
   \<and> onByteCodes BytesToHash True False scenario ''peer2'' 8 [Some [1]]
       = Returned (scenario\<lparr>update := True\<rparr>, NoAction, None)"
proof -
  have h: "bytecodeReqs scenario 8 = None" by (simp add: scenario_def NewSyncer_def)
  have p: "''peer2'' \<notin> peers scenario" by (simp add: scenario_def NewSyncer_def)
  show ?thesis
    using onByteCodes_unknown_request [OF h, of BytesToHash True False "''peer2''" "[Some [1]]"]
      h p
    by auto
qed

section \<open>Flat states\<close>

text \<open>
  C10. With a single path and a value that does not decode as a state account,
  \<open>onHealState\<close> returns no error and leaves the syncer as it was: nothing is queued in
  the state-writer batch and nothing is flushed. With a value that decodes, the account
  is re-encoded in slim form and queued under the key of the path (and the batch is
  flushed if it has grown beyond the ideal size).
\<close>

theorem onHealState_undecodable_account:
  "(DecodeBytes val = None \<longrightarrow>
      onHealState DecodeBytes SlimAccountRLP writeOk s [path] val = (s, None))
   \<and> (DecodeBytes val = Some account \<longrightarrow>
        onHealState DecodeBytes SlimAccountRLP writeOk s [path] val =
          (flushStateWriter writeOk
             (s\<lparr>stateWriter := stateWriter s @
                    [(AccountSnapshotKey (BytesToHash path),
                      SlimAccountRLP (Nonce account) (Balance account) (Root account)
                        (CodeHash account))],
                 accountHealed := accountHealed s + 1,
                 accountHealedBytes := accountHealedBytes s
                    + word_of_nat (1 + HashLength
                        + length (SlimAccountRLP (Nonce account) (Balance account) (Root account)
                                    (CodeHash account)))\<rparr>), None))"
  by (simp add: onHealState_def Let_def WriteAccountSnapshot_def batchPut_def)

theorem onHealState_undecodable_account_witness:
  "(\<lambda>v. if v = [1] then Some \<lparr>Nonce = 0, Balance = 0, Root = 0, CodeHash = []\<rparr> else None) [2 :: byte]
     = None
   \<and> onHealState
        (\<lambda>v. if v = [1] then Some \<lparr>Nonce = 0, Balance = 0, Root = 0, CodeHash = []\<rparr> else None)
        (\<lambda>n b r c. c) True (NewSyncer Map.empty ()) [[5]] [2]
       = (NewSyncer Map.empty (), None)
   \<and> stateWriter (fst (onHealState
        (\<lambda>v. if v = [1] then Some \<lparr>Nonce = 0, Balance = 0, Root = 0, CodeHash = []\<rparr> else None)
        (\<lambda>n b r c. c) True (NewSyncer Map.empty ()) [[5]] [1]))
       = [(AccountSnapshotKey 5, [])]"
proof -
  let ?D = "\<lambda>v :: byte list. if v = [1] then
              Some \<lparr>Nonce = 0, Balance = 0, Root = 0, CodeHash = ([] :: byte list)\<rparr> else None"
  have h: "?D [2] = None" by simp
  have g: "?D [1] = Some \<lparr>Nonce = 0, Balance = 0, Root = 0, CodeHash = []\<rparr>" by simp
  have k: "BytesToHash [5] = 5" by (simp add: BytesToHash_def bigEndian_def)
  from onHealState_undecodable_account
         [where DecodeBytes = ?D and val = "[2]" and SlimAccountRLP = "\<lambda>n b r c. c"
            and writeOk = True and s = "NewSyncer Map.empty ()" and path = "[5]"] h
  have a: "onHealState ?D (\<lambda>n b r c. c) True (NewSyncer Map.empty ()) [[5]] [2]
             = (NewSyncer Map.empty (), None)"
    by blast
  from onHealState_undecodable_account
         [where DecodeBytes = ?D and val = "[1]" and SlimAccountRLP = "\<lambda>n b r c. c"
            and writeOk = True and s = "NewSyncer Map.empty ()" and path = "[5]"
            and account = "\<lparr>Nonce = 0, Balance = 0, Root = 0, CodeHash = []\<rparr>"] g
  have b: "stateWriter (fst (onHealState ?D (\<lambda>n b r c. c) True (NewSyncer Map.empty ()) [[5]] [1]))
             = [(AccountSnapshotKey 5, [])]"
    by (simp add: k flushStateWriter_def ValueSize_def IdealBatchSize_def NewSyncer_def)
  from h a b show ?thesis by simp
qed

section \<open>The fresh account plan\<close>

lemma rounds16: "[0..<accountConcurrency] = [0, 1, 2, 3, 4, 5, 6, 7, 8, 9, 10, 11, 12, 13, 14, 15]"
  unfolding accountConcurrency_def by (simp add: upt_rec)

lemma BigToHash_add: "BigToHash (Big h + k) = h + word_of_int k"
  by (simp add: BigToHash_def Big_def)

lemma chunkStep_val: "(word_of_int chunkStep :: hash) = 2 ^ 252 - 1"
  by (simp add: chunkStep_def accountConcurrency_def)

lemma allOnes: "(0xffffffffffffffffffffffffffffffffffffffffffffffffffffffffffffffff :: hash) = - 1"
proof -
  have "(0xffffffffffffffffffffffffffffffffffffffffffffffffffffffffffffffff :: hash)
          = word_of_int (2 ^ 256 - 1)"
    by simp
  also have "\<dots> = word_of_int (2 ^ 256) - 1"
    by (simp del: word_of_int_numeral)
  also have "\<dots> = - 1"
    by (simp add: word_of_int_2p_len [where 'a = 256, simplified])
  finally show ?thesis .
qed

lemma chunkRound_eq:
  "chunkRound (s, next) i =
     (appendTask s \<lparr>Next = next,
                     Last = (if i = 15 then - 1 else next + (2 ^ 252 - 1)),
                     res = None, pend = 0, needCode = [], codeTasks = {}\<rparr>,
      (if i = 15 then - 1 else next + (2 ^ 252 - 1)) + 1)"
  by (simp add: chunkRound_def Let_def BigToHash_add chunkStep_val accountConcurrency_def allOnes
        del: word_of_int_numeral)

lemma lastChunk: "(15 * 2 ^ 252 + (2 ^ 252 - 1) :: hash) = - 1"
proof -
  have "(15 * 2 ^ 252 + (2 ^ 252 - 1) :: hash) = 2 ^ 256 - 1" by simp
  also have "\<dots> = - 1" using word_pow_0 [where 'a = 256] by simp
  finally show ?thesis .
qed

lemma chunk_rounds:
  "k \<le> 16 \<Longrightarrow>
   \<exists>sk. foldl chunkRound (s, 0) [0..<k] = (sk, of_nat k * 2 ^ 252)
      \<and> tasks sk = tasks s @ [nextRef s..<nextRef s + k]
      \<and> nextRef sk = nextRef s + k
      \<and> (\<forall>i<k. taskStore sk (nextRef s + i) =
             \<lparr>Next = of_nat i * 2 ^ 252, Last = of_nat i * 2 ^ 252 + (2 ^ 252 - 1),
              res = None, pend = 0, needCode = [], codeTasks = {}\<rparr>)
      \<and> (\<forall>a<nextRef s. taskStore sk a = taskStore s a)
      \<and> bytecodeSynced sk = bytecodeSynced s \<and> bytecodeBytes sk = bytecodeBytes s
      \<and> bytecodeHealSynced sk = bytecodeHealSynced s
      \<and> bytecodeHealBytes sk = bytecodeHealBytes s"
proof (induction k)
  case 0
  then show ?case by simp
next
  case (Suc k)
  then obtain sk where
    f: "foldl chunkRound (s, 0) [0..<k] = (sk, of_nat k * 2 ^ 252)"
    and t: "tasks sk = tasks s @ [nextRef s..<nextRef s + k]"
    and n: "nextRef sk = nextRef s + k"
    and st: "\<forall>i<k. taskStore sk (nextRef s + i) =
             \<lparr>Next = of_nat i * 2 ^ 252, Last = of_nat i * 2 ^ 252 + (2 ^ 252 - 1),
              res = None, pend = 0, needCode = [], codeTasks = {}\<rparr>"
    and old: "\<forall>a<nextRef s. taskStore sk a = taskStore s a"
    and c: "bytecodeSynced sk = bytecodeSynced s" "bytecodeBytes sk = bytecodeBytes s"
      "bytecodeHealSynced sk = bytecodeHealSynced s" "bytecodeHealBytes sk = bytecodeHealBytes s"
    by auto
  let ?next = "of_nat k * 2 ^ 252 :: hash"
  let ?last = "?next + (2 ^ 252 - 1)"
  let ?t = "\<lparr>Next = ?next, Last = ?last, res = None, pend = 0, needCode = [], codeTasks = {}\<rparr>"
  have l: "(if k = 15 then - 1 else ?last) = ?last"
    using lastChunk by simp
  have nx: "?last + 1 = of_nat (Suc k) * 2 ^ 252"
    by (simp add: algebra_simps)
  have r: "chunkRound (sk, ?next) k = (appendTask sk ?t, of_nat (Suc k) * 2 ^ 252)"
    unfolding chunkRound_eq l nx ..
  have "foldl chunkRound (s, 0) [0..<Suc k] = (appendTask sk ?t, of_nat (Suc k) * 2 ^ 252)"
    using f r by simp
  moreover have "tasks (appendTask sk ?t) = tasks s @ [nextRef s..<nextRef s + Suc k]"
    using t n by (simp add: appendTask_def)
  moreover have "nextRef (appendTask sk ?t) = nextRef s + Suc k"
    using n by (simp add: appendTask_def)
  moreover have "\<forall>i<Suc k. taskStore (appendTask sk ?t) (nextRef s + i) =
             \<lparr>Next = of_nat i * 2 ^ 252, Last = of_nat i * 2 ^ 252 + (2 ^ 252 - 1),
              res = None, pend = 0, needCode = [], codeTasks = {}\<rparr>"
    using st n by (auto simp: appendTask_def less_Suc_eq)
  moreover have "\<forall>a<nextRef s. taskStore (appendTask sk ?t) a = taskStore s a"
    using old n by (simp add: appendTask_def)
  moreover have "bytecodeSynced (appendTask sk ?t) = bytecodeSynced s"
    "bytecodeBytes (appendTask sk ?t) = bytecodeBytes s"
    "bytecodeHealSynced (appendTask sk ?t) = bytecodeHealSynced s"
    "bytecodeHealBytes (appendTask sk ?t) = bytecodeHealBytes s"
    using c by (simp_all add: appendTask_def)
  ultimately show ?case by blast
qed

lemma uint_of_nat_small: "n < 2 ^ 256 \<Longrightarrow> uint (of_nat n :: hash) = int n"
  by (simp add: uint_nat unat_of_nat)

lemma Big_chunk: "i < 16 \<Longrightarrow> Big (of_nat i * 2 ^ 252) = int i * 2 ^ 252"
proof -
  assume i: "i < 16"
  then have "i * 2 ^ 252 < (2 :: nat) ^ 256" by simp
  then have "uint (of_nat (i * 2 ^ 252) :: hash) = int (i * 2 ^ 252)"
    by (rule uint_of_nat_small)
  then have "uint (of_nat i * 2 ^ 252 :: hash) = int i * 2 ^ 252"
    by (simp only: of_nat_mult of_nat_power of_nat_numeral)
  then show ?thesis by (simp only: Big_def)
qed

lemma Big_chunk_last:
  "i < 16 \<Longrightarrow> Big (of_nat i * 2 ^ 252 + (2 ^ 252 - 1)) = int i * 2 ^ 252 + (2 ^ 252 - 1)"
proof -
  assume i: "i < 16"
  then have "i * 2 ^ 252 + (2 ^ 252 - 1) < (2 :: nat) ^ 256" by simp
  then have "uint (of_nat (i * 2 ^ 252 + (2 ^ 252 - 1)) :: hash)
               = int (i * 2 ^ 252 + (2 ^ 252 - 1))"
    by (rule uint_of_nat_small)
  moreover have "(of_nat (i * 2 ^ 252 + (2 ^ 252 - 1)) :: hash)
                   = of_nat i * 2 ^ 252 + (2 ^ 252 - 1)"
    by simp
  moreover have "int (i * 2 ^ 252 + (2 ^ 252 - 1)) = int i * 2 ^ 252 + (2 ^ 252 - 1)"
    by simp
  ultimately show ?thesis by (simp only: Big_def)
qed

text \<open>
  C6. When no checkpoint is stored, or the stored bytes do not decode, \<open>loadSyncStatus\<close>
  sets the four progress counters to zero and appends \<open>accountConcurrency\<close> (16) newly
  allocated account tasks to \<open>s.tasks\<close>. The first new task starts at hash 0, each
  following task starts one above the end of the task before it, the last task ends at
  \<open>2 ^ 256 - 1\<close>, and no task is empty: the new tasks split the hash space into 16
  contiguous chunks.
\<close>

theorem loadSyncStatus_fresh_plan:
  assumes "status = None \<or> (\<exists>raw. status = Some raw \<and> decode raw = None)"
  shows "let s' = loadSyncStatus decode status s;
             m = length (tasks s);
             new = (\<lambda>i. taskStore s' (tasks s' ! (m + i)))
         in bytecodeSynced s' = 0 \<and> bytecodeBytes s' = 0
            \<and> bytecodeHealSynced s' = 0 \<and> bytecodeHealBytes s' = 0
            \<and> length (tasks s') = m + accountConcurrency
            \<and> take m (tasks s') = tasks s
            \<and> drop m (tasks s') = [nextRef s..<nextRef s + accountConcurrency]
            \<and> Big (Next (new 0)) = 0
            \<and> (\<forall>i<accountConcurrency - 1. Big (Next (new (i + 1))) = Big (Last (new i)) + 1)
            \<and> Big (Last (new (accountConcurrency - 1))) = 2 ^ 256 - 1
            \<and> (\<forall>i<accountConcurrency. Big (Next (new i)) \<le> Big (Last (new i)))"
proof -
  let ?s0 = "s\<lparr>bytecodeSynced := 0, bytecodeBytes := 0,
                 bytecodeHealSynced := 0, bytecodeHealBytes := 0\<rparr>"
  have e: "loadSyncStatus decode status s = fst (foldl chunkRound (?s0, 0) [0..<16])"
    using assms by (auto simp: loadSyncStatus_def accountConcurrency_def)
  obtain sk where
    f: "foldl chunkRound (?s0, 0) [0..<16] = (sk, of_nat 16 * 2 ^ 252)"
    and t: "tasks sk = tasks ?s0 @ [nextRef ?s0..<nextRef ?s0 + 16]"
    and st: "\<forall>i<16. taskStore sk (nextRef ?s0 + i) =
             \<lparr>Next = of_nat i * 2 ^ 252, Last = of_nat i * 2 ^ 252 + (2 ^ 252 - 1),
              res = None, pend = 0, needCode = [], codeTasks = {}\<rparr>"
    and c: "bytecodeSynced sk = bytecodeSynced ?s0" "bytecodeBytes sk = bytecodeBytes ?s0"
      "bytecodeHealSynced sk = bytecodeHealSynced ?s0"
      "bytecodeHealBytes sk = bytecodeHealBytes ?s0"
    using chunk_rounds [of 16 ?s0] by auto
  have sk: "loadSyncStatus decode status s = sk" using e f by simp
  have t': "tasks sk = tasks s @ [nextRef s..<nextRef s + 16]" using t by simp
  have new: "taskStore sk (tasks sk ! (length (tasks s) + i)) =
             \<lparr>Next = of_nat i * 2 ^ 252, Last = of_nat i * 2 ^ 252 + (2 ^ 252 - 1),
              res = None, pend = 0, needCode = [], codeTasks = {}\<rparr>" if "i < 16" for i
    using that st t' by simp
  have a: "Big (Next (taskStore sk (tasks sk ! (length (tasks s) + 0)))) = 0"
    using new [of 0] Big_chunk [of 0] by simp
  have b: "Big (Next (taskStore sk (tasks sk ! (length (tasks s) + (i + 1)))))
            = Big (Last (taskStore sk (tasks sk ! (length (tasks s) + i)))) + 1" if "i < 15" for i
    using that new [of i] new [of "i + 1"] Big_chunk [of "i + 1"] Big_chunk_last [of i]
    by (simp add: algebra_simps)
  have d: "Big (Last (taskStore sk (tasks sk ! (length (tasks s) + 15)))) = 2 ^ 256 - 1"
    using new [of 15] Big_chunk_last [of 15] by simp
  have g: "Big (Next (taskStore sk (tasks sk ! (length (tasks s) + i))))
            \<le> Big (Last (taskStore sk (tasks sk ! (length (tasks s) + i))))" if "i < 16" for i
    using that new [of i] Big_chunk [of i] Big_chunk_last [of i] by simp
  show ?thesis
    unfolding Let_def sk accountConcurrency_def
    using a b d g c t' by simp
qed

theorem loadSyncStatus_fresh_plan_witness:
  "(None = (None :: byte list option) \<or> (\<exists>raw. None = Some raw \<and> (\<lambda>_. None) raw = (None :: SyncProgress option)))
   \<and> length (tasks (loadSyncStatus (\<lambda>_. None) None (NewSyncer Map.empty ()))) = 16
   \<and> Big (Next (taskStore (loadSyncStatus (\<lambda>_. None) None (NewSyncer Map.empty ()))
                  (tasks (loadSyncStatus (\<lambda>_. None) None (NewSyncer Map.empty ())) ! 0))) = 0
   \<and> Big (Last (taskStore (loadSyncStatus (\<lambda>_. None) None (NewSyncer Map.empty ()))
                  (tasks (loadSyncStatus (\<lambda>_. None) None (NewSyncer Map.empty ())) ! 15)))
        = 2 ^ 256 - 1"
proof -
  have h: "None = (None :: byte list option)
           \<or> (\<exists>raw. None = Some raw \<and> (\<lambda>_. None) raw = (None :: SyncProgress option))"
    by simp
  have m: "length (tasks (NewSyncer Map.empty () :: unit syncer)) = 0"
    by (simp add: NewSyncer_def)
  let ?s' = "loadSyncStatus (\<lambda>_. None) None (NewSyncer Map.empty () :: unit syncer)"
  note th = loadSyncStatus_fresh_plan [OF h, of "NewSyncer Map.empty () :: unit syncer"]
  have 1: "length (tasks ?s') = 16"
    using th by (auto simp: Let_def m accountConcurrency_def)
  have 2: "Big (Next (taskStore ?s' (tasks ?s' ! 0))) = 0"
    using th by (auto simp: Let_def m accountConcurrency_def)
  have 3: "Big (Last (taskStore ?s' (tasks ?s' ! 15))) = 2 ^ 256 - 1"
    using th by (auto simp: Let_def m accountConcurrency_def)
  from h 1 2 3 show ?thesis by blast
qed

section \<open>Integrating a response\<close>

lemma unmarkNeedCode_returns:
  "j + length as \<le> length (needCode t) \<Longrightarrow>
   \<exists>t'. unmarkNeedCode h as j t = Returned t' \<and> codeTasks t' = codeTasks t \<and> res t' = res t
        \<and> length (needCode t') = length (needCode t)"
proof (induction as arbitrary: j t)
  case Nil
  then show ?case by simp
next
  case (Cons a as)
  then have j: "j < length (needCode t)" by simp
  let ?t1 = "t\<lparr>needCode := (needCode t)[j := False], pend := pend t - 1\<rparr>"
  have 1: "\<exists>t'. unmarkNeedCode h as (j + 1) ?t1 = Returned t' \<and> codeTasks t' = codeTasks ?t1
             \<and> res t' = res ?t1 \<and> length (needCode t') = length (needCode ?t1)"
    using Cons.prems by (intro Cons.IH) simp
  have 2: "\<exists>t'. unmarkNeedCode h as (j + 1) t = Returned t' \<and> codeTasks t' = codeTasks t
             \<and> res t' = res t \<and> length (needCode t') = length (needCode t)"
    using Cons.prems by (intro Cons.IH) simp
  show ?case
  proof (cases "needCode t ! j \<and> h = BytesToHash (CodeHash a)")
    case True
    with j 1 show ?thesis by simp
  next
    case False
    with j 2 show ?thesis by auto
  qed
qed

lemma integrateCodes_returns:
  "i + length hs \<le> length cs \<Longrightarrow> res (taskStore s t) = Some ar \<Longrightarrow>
   length (accounts ar) \<le> length (needCode (taskStore s t)) \<Longrightarrow>
   \<exists>s1. integrateCodes s t hs i cs b n =
           Returned (s1,
             b @ concat (map (\<lambda>(h, c). case c of None \<Rightarrow> [] | Some code \<Rightarrow> [(CodeKey h, code)])
                          (zip hs (drop i cs))),
             n + of_nat (length (filter (\<lambda>c. c \<noteq> None) (take (length hs) (drop i cs)))))
      \<and> codeTasks (taskStore s1 t)
           = codeTasks (taskStore s t) \<union> {h. (h, None) \<in> set (zip hs (drop i cs))}
      \<and> db s1 = db s \<and> bytecodeSynced s1 = bytecodeSynced s \<and> bytecodeBytes s1 = bytecodeBytes s"
proof (induction hs arbitrary: s i b n)
  case Nil
  then show ?case by simp
next
  case (Cons h hs)
  then have i: "i < length cs" by simp
  then have d: "drop i cs = cs ! i # drop (i + 1) cs"
    by (simp add: Cons_nth_drop_Suc)
  show ?case
  proof (cases "cs ! i")
    case None
    let ?s1 = "s\<lparr>taskStore := (taskStore s)
                 (t := (taskStore s t)\<lparr>codeTasks := insert h (codeTasks (taskStore s t))\<rparr>)\<rparr>"
    have "\<exists>s1. integrateCodes ?s1 t hs (i + 1) cs b n =
           Returned (s1,
             b @ concat (map (\<lambda>(h, c). case c of None \<Rightarrow> [] | Some code \<Rightarrow> [(CodeKey h, code)])
                          (zip hs (drop (i + 1) cs))),
             n + of_nat (length (filter (\<lambda>c. c \<noteq> None) (take (length hs) (drop (i + 1) cs)))))
      \<and> codeTasks (taskStore s1 t)
           = codeTasks (taskStore ?s1 t) \<union> {h. (h, None) \<in> set (zip hs (drop (i + 1) cs))}
      \<and> db s1 = db ?s1 \<and> bytecodeSynced s1 = bytecodeSynced ?s1
      \<and> bytecodeBytes s1 = bytecodeBytes ?s1"
      using Cons.prems by (intro Cons.IH) simp_all
    then obtain s1 where
      r: "integrateCodes ?s1 t hs (i + 1) cs b n =
           Returned (s1,
             b @ concat (map (\<lambda>(h, c). case c of None \<Rightarrow> [] | Some code \<Rightarrow> [(CodeKey h, code)])
                          (zip hs (drop (i + 1) cs))),
             n + of_nat (length (filter (\<lambda>c. c \<noteq> None) (take (length hs) (drop (i + 1) cs)))))"
      and ct: "codeTasks (taskStore s1 t)
           = codeTasks (taskStore ?s1 t) \<union> {h. (h, None) \<in> set (zip hs (drop (i + 1) cs))}"
      and rest: "db s1 = db ?s1" "bytecodeSynced s1 = bytecodeSynced ?s1"
        "bytecodeBytes s1 = bytecodeBytes ?s1"
      by blast
    have "integrateCodes s t (h # hs) i cs b n = integrateCodes ?s1 t hs (i + 1) cs b n"
      using i None by simp
    moreover have "codeTasks (taskStore ?s1 t) \<union> {h. (h, None) \<in> set (zip hs (drop (i + 1) cs))}
          = codeTasks (taskStore s t) \<union> {x. (x, None) \<in> set (zip (h # hs) (drop i cs))}"
      using None d by auto
    ultimately show ?thesis using r ct rest None d by (intro exI [of _ s1]) simp
  next
    case (Some code)
    obtain t' where
      u: "unmarkNeedCode h (accounts ar) 0 (taskStore s t) = Returned t'"
      and ut: "codeTasks t' = codeTasks (taskStore s t)" "res t' = res (taskStore s t)"
        "length (needCode t') = length (needCode (taskStore s t))"
      using unmarkNeedCode_returns [of 0 "accounts ar" "taskStore s t" h] Cons.prems(3) by auto
    let ?s1 = "s\<lparr>taskStore := (taskStore s)(t := t')\<rparr>"
    have "\<exists>s1. integrateCodes ?s1 t hs (i + 1) cs (WriteCode b h code) (n + 1) =
           Returned (s1,
             WriteCode b h code
               @ concat (map (\<lambda>(h, c). case c of None \<Rightarrow> [] | Some code \<Rightarrow> [(CodeKey h, code)])
                          (zip hs (drop (i + 1) cs))),
             n + 1 + of_nat (length (filter (\<lambda>c. c \<noteq> None) (take (length hs) (drop (i + 1) cs)))))
      \<and> codeTasks (taskStore s1 t)
           = codeTasks (taskStore ?s1 t) \<union> {h. (h, None) \<in> set (zip hs (drop (i + 1) cs))}
      \<and> db s1 = db ?s1 \<and> bytecodeSynced s1 = bytecodeSynced ?s1
      \<and> bytecodeBytes s1 = bytecodeBytes ?s1"
      using Cons.prems ut by (intro Cons.IH) simp_all
    then obtain s1 where
      r: "integrateCodes ?s1 t hs (i + 1) cs (WriteCode b h code) (n + 1) =
           Returned (s1,
             WriteCode b h code
               @ concat (map (\<lambda>(h, c). case c of None \<Rightarrow> [] | Some code \<Rightarrow> [(CodeKey h, code)])
                          (zip hs (drop (i + 1) cs))),
             n + 1 + of_nat (length (filter (\<lambda>c. c \<noteq> None) (take (length hs) (drop (i + 1) cs)))))"
      and ct: "codeTasks (taskStore s1 t)
           = codeTasks (taskStore ?s1 t) \<union> {h. (h, None) \<in> set (zip hs (drop (i + 1) cs))}"
      and rest: "db s1 = db ?s1" "bytecodeSynced s1 = bytecodeSynced ?s1"
        "bytecodeBytes s1 = bytecodeBytes ?s1"
      by blast
    have "integrateCodes s t (h # hs) i cs b n
            = integrateCodes ?s1 t hs (i + 1) cs (WriteCode b h code) (n + 1)"
      using i Some u Cons.prems(2) by simp
    moreover have "codeTasks (taskStore ?s1 t) \<union> {h. (h, None) \<in> set (zip hs (drop (i + 1) cs))}
          = codeTasks (taskStore s t) \<union> {x. (x, None) \<in> set (zip (h # hs) (drop i cs))}"
      using Some d ut by auto
    ultimately show ?thesis using r ct rest Some d
      by (intro exI [of _ s1]) (simp add: WriteCode_def batchPut_def)
  qed
qed

lemma ValueSize_append: "ValueSize (a @ b) = ValueSize a + ValueSize b"
  by (simp add: ValueSize_def)

lemma ValueSize_rows:
  "length hs = length cs \<Longrightarrow>
   ValueSize (concat (map (\<lambda>(h, c). case c of None \<Rightarrow> [] | Some code \<Rightarrow> [(CodeKey h, code)])
                       (zip hs cs)))
     = sum_list (map len (filter (\<lambda>c. c \<noteq> None) cs))"
proof (induction hs cs rule: list_induct2)
  case Nil
  then show ?case by (simp add: ValueSize_def)
next
  case (Cons h hs c cs)
  then show ?case
    by (cases c) (simp_all add: ValueSize_def len_def)
qed

text \<open>
  C5. A delivered response has as many codes as hashes, and its task is in the
  bytecode phase (it holds an account response whose accounts all have a \<open>needCode\<close>
  flag). When the batch write succeeds, \<open>processBytecodeResponse\<close> returns with
  \<open>bytecodeSynced\<close> increased by the number of non-nil blobs and \<open>bytecodeBytes\<close> increased
  by the sum of their lengths (in 64-bit arithmetic), the code store is the old store
  with one batch written, which holds the delivered blobs under their hashes, and the
  hashes of the nil entries are back in the pending set of the task.
\<close>

theorem processBytecodeResponse_counters:
  assumes "length (res_codes rsp) = length (res_hashes rsp)"
    and "res (taskStore s (res_task rsp)) = Some ar"
    and "length (accounts ar) \<le> length (needCode (taskStore s (res_task rsp)))"
  shows "\<exists>s'. processBytecodeResponse True s rsp = Returned s'
           \<and> bytecodeSynced s'
               = bytecodeSynced s + of_nat (length (filter (\<lambda>c. c \<noteq> None) (res_codes rsp)))
           \<and> bytecodeBytes s'
               = bytecodeBytes s
                 + of_nat (sum_list (map len (filter (\<lambda>c. c \<noteq> None) (res_codes rsp))))
           \<and> db s' = batchWrite (db s)
                 (concat (map (\<lambda>(h, c). case c of None \<Rightarrow> []
                                            | Some code \<Rightarrow> [(CodeKey h, code)])
                              (zip (res_hashes rsp) (res_codes rsp))))
           \<and> codeTasks (taskStore s' (res_task rsp))
               = codeTasks (taskStore s (res_task rsp))
                 \<union> {h. (h, None) \<in> set (zip (res_hashes rsp) (res_codes rsp))}"
proof -
  let ?rows = "concat (map (\<lambda>(h, c). case c of None \<Rightarrow> [] | Some code \<Rightarrow> [(CodeKey h, code)])
                           (zip (res_hashes rsp) (res_codes rsp)))"
  let ?n = "length (filter (\<lambda>c. c \<noteq> None) (res_codes rsp))"
  obtain s1 where
    r: "integrateCodes s (res_task rsp) (res_hashes rsp) 0 (res_codes rsp) [] 0
          = Returned (s1, ?rows, of_nat ?n)"
    and ct: "codeTasks (taskStore s1 (res_task rsp))
               = codeTasks (taskStore s (res_task rsp))
                 \<union> {h. (h, None) \<in> set (zip (res_hashes rsp) (res_codes rsp))}"
    and rest: "db s1 = db s" "bytecodeSynced s1 = bytecodeSynced s"
      "bytecodeBytes s1 = bytecodeBytes s"
    using integrateCodes_returns [of 0 "res_hashes rsp" "res_codes rsp" s "res_task rsp" ar "[]" 0]
      assms by auto
  have vs: "ValueSize ?rows = sum_list (map len (filter (\<lambda>c. c \<noteq> None) (res_codes rsp)))"
    using assms(1) by (intro ValueSize_rows) simp
  let ?s2 = "s1\<lparr>db := batchWrite (db s1) ?rows,
                 bytecodeSynced := bytecodeSynced s1 + of_nat ?n,
                 bytecodeBytes := bytecodeBytes s1 + word_of_nat (ValueSize ?rows)\<rparr>"
  have p: "processBytecodeResponse True s rsp =
             Returned (if pend (taskStore ?s2 (res_task rsp)) = 0
                       then forwardAccountTask ?s2 (res_task rsp) else ?s2)"
    using r by (simp add: processBytecodeResponse_def Let_def)
  show ?thesis
  proof (cases "pend (taskStore ?s2 (res_task rsp)) = 0")
    case True
    with p have "processBytecodeResponse True s rsp
                   = Returned (forwardAccountTask ?s2 (res_task rsp))"
      by simp
    then show ?thesis using ct rest vs
      by (intro exI [of _ "forwardAccountTask ?s2 (res_task rsp)"])
         (simp add: forwardAccountTask_def)
  next
    case False
    with p have "processBytecodeResponse True s rsp = Returned ?s2" by simp
    then show ?thesis using ct rest vs
      by (intro exI [of _ ?s2]) simp
  qed
qed

theorem processBytecodeResponse_counters_witness:
  "length (res_codes \<lparr>res_task = 0, res_hashes = [1, 2, 3],
                       res_codes = [Some [1], None, Some [3, 3]]\<rparr>)
     = length (res_hashes \<lparr>res_task = 0, res_hashes = [1, 2, 3],
                            res_codes = [Some [1], None, Some [3, 3]]\<rparr>)
   \<and> res (taskStore scenario 0) = Some \<lparr>accounts = []\<rparr>
   \<and> (\<exists>s'. processBytecodeResponse True scenario
               \<lparr>res_task = 0, res_hashes = [1, 2, 3], res_codes = [Some [1], None, Some [3, 3]]\<rparr>
             = Returned s'
          \<and> bytecodeSynced s' = 2 \<and> bytecodeBytes s' = 3
          \<and> db s' = [CodeKey 1 \<mapsto> [1], CodeKey 3 \<mapsto> [3, 3]]
          \<and> codeTasks (taskStore s' 0) = {2})"
proof -
  let ?rsp = "\<lparr>res_task = 0, res_hashes = [1, 2, 3 :: hash],
               res_codes = [Some [1], None, Some [3, 3 :: byte]]\<rparr>"
  have h1: "length (res_codes ?rsp) = length (res_hashes ?rsp)" by simp
  have h2: "res (taskStore scenario (res_task ?rsp)) = Some \<lparr>accounts = []\<rparr>"
    by (simp add: scenario_def NewSyncer_def)
  have h3: "length (accounts \<lparr>accounts = []\<rparr>)
              \<le> length (needCode (taskStore scenario (res_task ?rsp)))"
    by simp
  have v: "bytecodeSynced scenario = 0" "bytecodeBytes scenario = 0" "db scenario = Map.empty"
    "codeTasks (taskStore scenario 0) = {}"
    by (simp_all add: scenario_def NewSyncer_def)
  have z: "{h. (h, None) \<in> set (zip [1, 2, 3 :: hash] [Some [1], None, Some [3, 3 :: byte]])} = {2}"
    by auto
  from processBytecodeResponse_counters [OF h1 h2 h3]
  obtain s' where "processBytecodeResponse True scenario ?rsp = Returned s'"
    and "bytecodeSynced s' = 2" and "bytecodeBytes s' = 3"
    and "db s' = [CodeKey 1 \<mapsto> [1], CodeKey 3 \<mapsto> [3, 3]]"
    and "codeTasks (taskStore s' 0) = {2}"
    by (auto simp: v z len_def)
  with h1 h2 show ?thesis by auto
qed

section \<open>Assignment of requests\<close>

lemma Int63_bound: "Int63 rng n < 2 ^ 63"
  unfolding Int63_def take_bit_eq_mask by (rule and_mask_less') simp

lemma allocReqid_fresh_aux:
  assumes "allocReqid rng ledger n = Some y"
  shows "fst y \<noteq> 0 \<and> fst y < 2 ^ 63 \<and> ledger (fst y) = None \<and> n < snd y
         \<and> fst y = Int63 rng (snd y - 1)"
proof (rule allocReqid.raw_induct
        [where P = "\<lambda>rng ledger n y. fst y \<noteq> 0 \<and> fst y < 2 ^ 63 \<and> ledger (fst y) = None
                      \<and> n < snd y \<and> fst y = Int63 rng (snd y - 1)", OF _ assms])
  fix alloc :: "(nat \<Rightarrow> 64 word) \<Rightarrow> (64 word \<rightharpoonup> reqRef) \<Rightarrow> nat \<Rightarrow> (64 word \<times> nat) option"
    and rng ledger n y
  assume IH: "\<And>rng ledger n y. alloc rng ledger n = Some y \<Longrightarrow>
                fst y \<noteq> 0 \<and> fst y < 2 ^ 63 \<and> ledger (fst y) = None \<and> n < snd y
                \<and> fst y = Int63 rng (snd y - 1)"
    and body: "(let reqid = Int63 rng n
                in if reqid = 0 then alloc rng ledger (n + 1)
                   else if ledger reqid \<noteq> None then alloc rng ledger (n + 1)
                   else Some (reqid, n + 1)) = Some y"
  show "fst y \<noteq> 0 \<and> fst y < 2 ^ 63 \<and> ledger (fst y) = None \<and> n < snd y
        \<and> fst y = Int63 rng (snd y - 1)"
  proof (cases "Int63 rng n = 0 \<or> ledger (Int63 rng n) \<noteq> None")
    case True
    then have "alloc rng ledger (n + 1) = Some y"
      using body by (auto simp: Let_def split: if_splits)
    from IH [OF this] show ?thesis by auto
  next
    case False
    then have "y = (Int63 rng n, n + 1)"
      using body by (auto simp: Let_def split: if_splits)
    then show ?thesis using False Int63_bound [of rng n] by simp
  qed
qed

lemma allocReqid_fresh:
  "allocReqid rng ledger n = Some (rid, n') \<Longrightarrow>
   rid \<noteq> 0 \<and> rid < 2 ^ 63 \<and> ledger rid = None \<and> n < n' \<and> rid = Int63 rng (n' - 1)"
proof -
  assume "allocReqid rng ledger n = Some (rid, n')"
  from allocReqid_fresh_aux [OF this]
  have "rid \<noteq> 0 \<and> rid < 2 ^ 63 \<and> ledger rid = None \<and> n < n' \<and> rid = Int63 rng (n' - 1)"
    unfolding fst_conv snd_conv .
  then show ?thesis .
qed

lemma allocReqid_returns:
  "Int63 rng (n + k) \<noteq> 0 \<Longrightarrow> ledger (Int63 rng (n + k)) = None \<Longrightarrow>
   allocReqid rng ledger n \<noteq> None"
proof (induction k arbitrary: n)
  case 0
  then show ?case by (subst allocReqid.simps) (simp add: Let_def)
next
  case (Suc k)
  then have "allocReqid rng ledger (n + 1) \<noteq> None"
    by (intro Suc.IH) simp_all
  then show ?case by (subst allocReqid.simps) (simp add: Let_def)
qed

lemma drain_result:
  "drain order cap ct hs = (ct', hs') \<Longrightarrow>
   \<exists>new. hs' = hs @ new \<and> distinct new \<and> set new \<subseteq> ct \<and> ct' = ct - set new
       \<and> int (length hs') \<le> max cap (int (length hs) + 1)"
proof (induction order arbitrary: ct hs)
  case Nil
  then show ?case by auto
next
  case (Cons h order)
  show ?case
  proof (cases "h \<in> ct")
    case False
    then have "drain order cap ct hs = (ct', hs')" using Cons.prems by simp
    from Cons.IH [OF this] show ?thesis .
  next
    case True
    show ?thesis
    proof (cases "int (length (hs @ [h])) \<ge> cap")
      case full: True
      then have "ct' = ct - {h}" "hs' = hs @ [h]"
        using Cons.prems True by (simp_all add: Let_def)
      then show ?thesis using True by (intro exI [of _ "[h]"]) auto
    next
      case more: False
      then have "drain order cap (ct - {h}) (hs @ [h]) = (ct', hs')"
        using Cons.prems True by (simp add: Let_def)
      from Cons.IH [OF this] obtain new where
        n: "hs' = (hs @ [h]) @ new" "distinct new" "set new \<subseteq> ct - {h}"
          "ct' = ct - {h} - set new"
          "int (length hs') \<le> max cap (int (length (hs @ [h])) + 1)"
        by blast
      have "int (length hs') \<le> max cap (int (length hs) + 1)"
        using n(5) more by simp
      then show ?thesis using n True by (intro exI [of _ "h # new"]) auto
    qed
  qed
qed

lemma capRequest_min: "capRequest c = min c maxCodeRequestCount"
  by (simp add: capRequest_def)

lemma assignLoop_inv:
  fixes capacity :: "string \<Rightarrow> int"
  defines "Q \<equiv> \<lambda>(s :: 'sch syncer) (s' :: 'sch syncer) r.
             req_id (reqStore s' r) \<noteq> 0 \<and> req_id (reqStore s' r) < 2 ^ 63
             \<and> bytecodeReqs s (req_id (reqStore s' r)) = None
             \<and> bytecodeReqs s' (req_id (reqStore s' r)) = Some r
             \<and> int (length (req_hashes (reqStore s' r)))
                 \<le> max 1 (min (capacity (req_peer (reqStore s' r))) maxCodeRequestCount)
             \<and> distinct (req_hashes (reqStore s' r))
             \<and> set (req_hashes (reqStore s' r))
                 \<subseteq> codeTasks (taskStore s (req_task (reqStore s' r)))
             \<and> set (req_hashes (reqStore s' r))
                 \<inter> codeTasks (taskStore s' (req_task (reqStore s' r))) = {}
             \<and> req_timeout (reqStore s' r) = Armed \<and> \<not> req_stale (reqStore s' r)"
  shows "assignLoop rng order ts idlers s n out = Some (Returned (s', n', out')) \<Longrightarrow>
         \<forall>pc\<in>set idlers. snd pc = capacity (fst pc) \<Longrightarrow>
         out' = out @ [nextRef s..<nextRef s'] \<and> nextRef s \<le> nextRef s'
         \<and> (\<forall>a<nextRef s. reqStore s' a = reqStore s a)
         \<and> (\<forall>t. codeTasks (taskStore s' t) \<subseteq> codeTasks (taskStore s t))
         \<and> (\<forall>k. bytecodeReqs s k \<noteq> None \<longrightarrow> bytecodeReqs s' k = bytecodeReqs s k)
         \<and> (\<forall>r\<in>set [nextRef s..<nextRef s']. Q s s' r)"
proof (induction ts arbitrary: idlers s n out)
  case Nil
  then show ?case by simp
next
  case (Cons t ts)
  let ?task = "taskStore s t"
  show ?case
  proof (cases "res ?task = None \<or> codeTasks ?task = {}")
    case True
    then have "assignLoop rng order ts idlers s n out = Some (Returned (s', n', out'))"
      using Cons.prems(1) by (auto simp: Let_def split: if_splits)
    from Cons.IH [OF this Cons.prems(2)] show ?thesis .
  next
    case False
    show ?thesis
    proof (cases idlers)
      case Nil
      then have "s' = s" "out' = out"
        using Cons.prems(1) False by (auto simp: Let_def split: if_splits)
      then show ?thesis by simp
    next
      case (Cons pc idlers')
      obtain idle cap0 where pc: "pc = (idle, cap0)" by (cases pc)
      have cap0: "cap0 = capacity idle"
        using Cons.prems(2) Cons pc by simp
      have caps': "\<forall>pc\<in>set idlers'. snd pc = capacity (fst pc)"
        using Cons.prems(2) Cons by simp
      obtain reqid n1 where al: "allocReqid rng (bytecodeReqs s) n = Some (reqid, n1)"
        using Cons.prems(1) False Cons pc
        by (cases "allocReqid rng (bytecodeReqs s) n") (auto simp: Let_def split: if_splits)
      have pos: "\<not> capRequest cap0 < 0"
        using Cons.prems(1) False Cons pc al by (auto simp: Let_def split: if_splits)
      obtain ct hashes where
        dr: "drain (order t) (capRequest cap0) (codeTasks ?task) [] = (ct, hashes)"
        by (cases "drain (order t) (capRequest cap0) (codeTasks ?task) []")
      let ?r0 = "nextRef s"
      let ?req = "\<lparr>req_peer = idle, req_id = reqid, req_timeout = Armed, req_stale = False,
                   req_hashes = hashes, req_task = t\<rparr>"
      let ?s2 = "s\<lparr>taskStore := (taskStore s)(t := ?task\<lparr>codeTasks := ct\<rparr>),
                    reqStore := (reqStore s)(?r0 := ?req),
                    nextRef := ?r0 + 1,
                    bytecodeReqs := (bytecodeReqs s)(reqid \<mapsto> ?r0),
                    bytecodeIdlers := bytecodeIdlers s - {idle}\<rparr>"
      have run: "assignLoop rng order ts idlers' ?s2 n1 (out @ [?r0])
                   = Some (Returned (s', n', out'))"
        using Cons.prems(1) False Cons pc al pos dr by (simp add: Let_def split: if_splits)
      note IH = Cons.IH [OF run caps']
      have s2: "nextRef ?s2 = ?r0 + 1" "reqStore ?s2 = (reqStore s)(?r0 := ?req)"
        "bytecodeReqs ?s2 = (bytecodeReqs s)(reqid \<mapsto> ?r0)"
        "taskStore ?s2 = (taskStore s)(t := ?task\<lparr>codeTasks := ct\<rparr>)"
        by simp_all
      from IH have o: "out' = (out @ [?r0]) @ [nextRef ?s2..<nextRef s']"
        and le: "nextRef ?s2 \<le> nextRef s'"
        and fr: "\<forall>a<nextRef ?s2. reqStore s' a = reqStore ?s2 a"
        and ctm: "\<forall>t. codeTasks (taskStore s' t) \<subseteq> codeTasks (taskStore ?s2 t)"
        and led: "\<forall>k. bytecodeReqs ?s2 k \<noteq> None \<longrightarrow> bytecodeReqs s' k = bytecodeReqs ?s2 k"
        and q2: "\<forall>r\<in>set [nextRef ?s2..<nextRef s']. Q ?s2 s' r"
        by blast+
      from allocReqid_fresh [OF al] have
        id: "reqid \<noteq> 0" "reqid < 2 ^ 63" "bytecodeReqs s reqid = None"
        by blast+
      from drain_result [OF dr] have
        dh: "distinct hashes" "set hashes \<subseteq> codeTasks ?task" "ct = codeTasks ?task - set hashes"
          "int (length hashes) \<le> max (capRequest cap0) 1"
        by auto
      have lt: "?r0 < nextRef s'" using le s2(1) by simp
      have upt: "[?r0..<nextRef s'] = ?r0 # [nextRef ?s2..<nextRef s']"
        using lt s2(1) by (simp add: upt_conv_Cons)
      have c1: "out' = out @ [?r0..<nextRef s']"
        using o upt by simp
      have c2: "\<forall>a<?r0. reqStore s' a = reqStore s a"
        using fr s2(1,2) by simp
      have sub2: "codeTasks (taskStore ?s2 t') \<subseteq> codeTasks (taskStore s t')" for t'
        using dh(3) by (simp add: s2(4))
      have c3: "\<forall>t. codeTasks (taskStore s' t) \<subseteq> codeTasks (taskStore s t)"
        using ctm sub2 by blast
      have c4: "\<forall>k. bytecodeReqs s k \<noteq> None \<longrightarrow> bytecodeReqs s' k = bytecodeReqs s k"
      proof (intro allI impI)
        fix k assume k: "bytecodeReqs s k \<noteq> None"
        then have "k \<noteq> reqid" using id(3) by auto
        then have "bytecodeReqs ?s2 k = bytecodeReqs s k" by (simp add: s2(3))
        with k led show "bytecodeReqs s' k = bytecodeReqs s k" by metis
      qed
      have q0: "reqStore s' ?r0 = ?req"
        using fr s2(1,2) by simp
      have l0: "bytecodeReqs s' reqid = Some ?r0"
        using led by (simp add: s2(3))
      have d0: "set hashes \<inter> codeTasks (taskStore s' t) = {}"
      proof -
        have "codeTasks (taskStore s' t) \<subseteq> codeTasks (taskStore ?s2 t)" using ctm by blast
        also have "\<dots> = codeTasks ?task - set hashes" using dh(3) by (simp add: s2(4))
        finally show ?thesis by auto
      qed
      have Q0: "Q s s' ?r0"
        unfolding Q_def q0
        using id l0 dh d0 cap0 by (simp add: capRequest_min max.commute)
      have Qr: "Q s s' r" if "r \<in> set [nextRef ?s2..<nextRef s']" for r
      proof -
        from q2 that have q: "Q ?s2 s' r" by blast
        let ?q = "reqStore s' r"
        have a: "bytecodeReqs s (req_id ?q) = None"
        proof -
          from q have "bytecodeReqs ?s2 (req_id ?q) = None" unfolding Q_def by blast
          then show ?thesis by (simp add: s2(3) split: if_splits)
        qed
        have b: "set (req_hashes ?q) \<subseteq> codeTasks (taskStore s (req_task ?q))"
        proof -
          from q have "set (req_hashes ?q) \<subseteq> codeTasks (taskStore ?s2 (req_task ?q))"
            unfolding Q_def by blast
          with sub2 show ?thesis by blast
        qed
        from q a b show ?thesis unfolding Q_def by blast
      qed
      have c5: "\<forall>r\<in>set [?r0..<nextRef s']. Q s s' r"
        unfolding upt using Q0 Qr by simp
      from c1 lt c2 c3 c4 c5 show ?thesis by simp
    qed
  qed
qed

lemma topUp_frame:
  "nextRef (topUp Missing s) = nextRef s \<and> healReqStore (topUp Missing s) = healReqStore s
   \<and> bytecodeHealReqs (topUp Missing s) = bytecodeHealReqs s"
  by (simp add: topUp_def Let_def split: prod.splits)

lemma healLoop_inv:
  "healLoop rng order Pending Missing idlers s n out = Some (Returned (s', n', out')) \<Longrightarrow>
   out' = out @ [nextRef s..<nextRef s'] \<and> nextRef s \<le> nextRef s'
   \<and> (\<forall>a<nextRef s. healReqStore s' a = healReqStore s a)
   \<and> (\<forall>k. bytecodeHealReqs s k \<noteq> None \<longrightarrow> bytecodeHealReqs s' k = bytecodeHealReqs s k)
   \<and> (\<forall>r\<in>set [nextRef s..<nextRef s'].
         hreq_id (healReqStore s' r) \<noteq> 0 \<and> hreq_id (healReqStore s' r) < 2 ^ 63
         \<and> bytecodeHealReqs s (hreq_id (healReqStore s' r)) = None
         \<and> bytecodeHealReqs s' (hreq_id (healReqStore s' r)) = Some r)"
proof (induction idlers arbitrary: s n out)
  case Nil
  let ?s0 = "topUp Missing s"
  have "s' = s \<or> s' = ?s0" and "out' = out"
    using Nil by (auto simp: healLoop.simps [of _ _ _ _ "[]"] Let_def split: if_splits)
  then show ?case using topUp_frame [of Missing s] by auto
next
  case (Cons pc idlers')
  let ?s0 = "topUp Missing s"
  obtain idle cap0 where pc: "pc = (idle, cap0)" by (cases pc)
  show ?case
  proof (cases "\<not> (h_codeTasks (healer s) \<noteq> {} \<or> Pending (scheduler (healer s)) > 0)
                \<or> h_codeTasks (healer ?s0) = {}")
    case True
    then have "s' = s \<or> s' = ?s0" and "out' = out"
      using Cons.prems
      by (auto simp: healLoop.simps [of _ _ _ _ "pc # idlers'"] Let_def split: if_splits)
    then show ?thesis using topUp_frame [of Missing s] by auto
  next
    case False
    then have unf: "(case allocReqid rng (bytecodeHealReqs ?s0) n of
                       None \<Rightarrow> None
                     | Some (reqid, n') \<Rightarrow>
                         (let cap = capRequest cap0
                          in if cap < 0 then Some Panic
                             else (let (ct, hashes) = drain order cap (h_codeTasks (healer ?s0)) [];
                                       s1 = ?s0\<lparr>healer := (healer ?s0)\<lparr>h_codeTasks := ct\<rparr>\<rparr>;
                                       r = nextRef s1;
                                       req = \<lparr>hreq_peer = idle, hreq_id = reqid,
                                              hreq_timeout = Armed, hreq_stale = False,
                                              hreq_hashes = hashes\<rparr>;
                                       s2 = s1\<lparr>healReqStore := (healReqStore s1)(r := req),
                                               nextRef := r + 1,
                                               bytecodeHealReqs := (bytecodeHealReqs s1)(reqid \<mapsto> r),
                                               bytecodeHealIdlers := bytecodeHealIdlers s1 - {idle}\<rparr>
                                   in healLoop rng order Pending Missing idlers' s2 n'
                                        (out @ [r]))))
                    = Some (Returned (s', n', out'))"
      using Cons.prems pc
      by (simp add: healLoop.simps [of _ _ _ _ "(idle, cap0) # idlers'"] Let_def
            split: if_splits)
    have tf: "nextRef ?s0 = nextRef s" "healReqStore ?s0 = healReqStore s"
      "bytecodeHealReqs ?s0 = bytecodeHealReqs s"
      using topUp_frame [of Missing s] by blast+
    obtain reqid n1 where al: "allocReqid rng (bytecodeHealReqs ?s0) n = Some (reqid, n1)"
      using unf by (cases "allocReqid rng (bytecodeHealReqs ?s0) n") auto
    have pos: "\<not> capRequest cap0 < 0"
      using unf al by (auto simp: Let_def split: if_splits)
    obtain ct hashes where
      dr: "drain order (capRequest cap0) (h_codeTasks (healer ?s0)) [] = (ct, hashes)"
      by (cases "drain order (capRequest cap0) (h_codeTasks (healer ?s0)) []")
    let ?r0 = "nextRef s"
    let ?req = "\<lparr>hreq_peer = idle, hreq_id = reqid, hreq_timeout = Armed, hreq_stale = False,
                 hreq_hashes = hashes\<rparr>"
    let ?s2 = "?s0\<lparr>healer := (healer ?s0)\<lparr>h_codeTasks := ct\<rparr>,
                   healReqStore := (healReqStore ?s0)(nextRef ?s0 := ?req),
                   nextRef := nextRef ?s0 + 1,
                   bytecodeHealReqs := (bytecodeHealReqs ?s0)(reqid \<mapsto> nextRef ?s0),
                   bytecodeHealIdlers := bytecodeHealIdlers ?s0 - {idle}\<rparr>"
    have run: "healLoop rng order Pending Missing idlers' ?s2 n1 (out @ [?r0])
                 = Some (Returned (s', n', out'))"
      using unf al pos dr by (simp add: Let_def tf)
    note IH = Cons.IH [OF run]
    have s2: "nextRef ?s2 = ?r0 + 1" "healReqStore ?s2 = (healReqStore s)(?r0 := ?req)"
      "bytecodeHealReqs ?s2 = (bytecodeHealReqs s)(reqid \<mapsto> ?r0)"
      by (simp_all add: tf)
    from IH have o: "out' = (out @ [?r0]) @ [nextRef ?s2..<nextRef s']"
      and le: "nextRef ?s2 \<le> nextRef s'"
      and fr: "\<forall>a<nextRef ?s2. healReqStore s' a = healReqStore ?s2 a"
      and led: "\<forall>k. bytecodeHealReqs ?s2 k \<noteq> None
                  \<longrightarrow> bytecodeHealReqs s' k = bytecodeHealReqs ?s2 k"
      and q2: "\<forall>r\<in>set [nextRef ?s2..<nextRef s'].
         hreq_id (healReqStore s' r) \<noteq> 0 \<and> hreq_id (healReqStore s' r) < 2 ^ 63
         \<and> bytecodeHealReqs ?s2 (hreq_id (healReqStore s' r)) = None
         \<and> bytecodeHealReqs s' (hreq_id (healReqStore s' r)) = Some r"
      by blast+
    from allocReqid_fresh [OF al] have
      id: "reqid \<noteq> 0" "reqid < 2 ^ 63" "bytecodeHealReqs s reqid = None"
      unfolding tf by blast+
    have lt: "?r0 < nextRef s'" using le s2(1) by simp
    have upt: "[?r0..<nextRef s'] = ?r0 # [nextRef ?s2..<nextRef s']"
      using lt s2(1) by (simp add: upt_conv_Cons)
    have c1: "out' = out @ [?r0..<nextRef s']"
      using o upt by simp
    have c2: "\<forall>a<?r0. healReqStore s' a = healReqStore s a"
      using fr by (simp add: tf)
    have c4: "\<forall>k. bytecodeHealReqs s k \<noteq> None
                \<longrightarrow> bytecodeHealReqs s' k = bytecodeHealReqs s k"
    proof (intro allI impI)
      fix k assume k: "bytecodeHealReqs s k \<noteq> None"
      then have "k \<noteq> reqid" using id(3) by auto
      then have "bytecodeHealReqs ?s2 k = bytecodeHealReqs s k" by (simp add: tf)
      with k led show "bytecodeHealReqs s' k = bytecodeHealReqs s k" by metis
    qed
    have q0: "healReqStore s' ?r0 = ?req"
      using fr by (simp add: tf)
    have l0: "bytecodeHealReqs s' reqid = Some ?r0"
      using led by (simp add: tf)
    have Qr: "hreq_id (healReqStore s' r) \<noteq> 0 \<and> hreq_id (healReqStore s' r) < 2 ^ 63
         \<and> bytecodeHealReqs s (hreq_id (healReqStore s' r)) = None
         \<and> bytecodeHealReqs s' (hreq_id (healReqStore s' r)) = Some r"
      if "r \<in> set [nextRef ?s2..<nextRef s']" for r
    proof -
      from q2 that have q: "hreq_id (healReqStore s' r) \<noteq> 0 \<and> hreq_id (healReqStore s' r) < 2 ^ 63
         \<and> bytecodeHealReqs ?s2 (hreq_id (healReqStore s' r)) = None
         \<and> bytecodeHealReqs s' (hreq_id (healReqStore s' r)) = Some r"
        by blast
      then have "bytecodeHealReqs s (hreq_id (healReqStore s' r)) = None"
        by (simp add: tf split: if_splits)
      with q show ?thesis by blast
    qed
    have c5: "\<forall>r\<in>set [?r0..<nextRef s'].
         hreq_id (healReqStore s' r) \<noteq> 0 \<and> hreq_id (healReqStore s' r) < 2 ^ 63
         \<and> bytecodeHealReqs s (hreq_id (healReqStore s' r)) = None
         \<and> bytecodeHealReqs s' (hreq_id (healReqStore s' r)) = Some r"
      unfolding upt using q0 l0 id Qr by simp
    from c1 lt c2 c4 c5 show ?thesis by simp
  qed
qed

lemma idleCandidates_caps:
  "\<forall>pc\<in>set (sortIdlers (idleCandidates peerOrder capacity idlers stateless)).
      snd pc = capacity (fst pc)"
  by (auto simp: sortIdlers_def idleCandidates_def)

lemma maxCodeRequestCount_val: "maxCodeRequestCount = 84"
  by (simp add: maxCodeRequestCount_def maxRequestSize_def)

lemma alloc_first: "allocReqid (\<lambda>n. of_nat n) Map.empty 0 = Some (1, 2)"
proof -
  have "allocReqid (\<lambda>n. of_nat n) Map.empty 1 = Some (1, 2)"
    by (subst allocReqid.simps) (simp add: Int63_def Let_def)
  then show ?thesis
    by (subst allocReqid.simps) (simp add: Int63_def Let_def)
qed

lemma pending_fields:
  "tasks pendingScenario = [0]" "nextRef pendingScenario = 1"
  "bytecodeIdlers pendingScenario = {''peer1''}" "statelessPeers pendingScenario = {}"
  "bytecodeReqs pendingScenario = Map.empty"
  "taskStore pendingScenario 0
     = \<lparr>Next = 0, Last = 0, res = Some \<lparr>accounts = []\<rparr>, pend = 3, needCode = [],
        codeTasks = {1, 2, 3}\<rparr>"
  by (simp_all add: pendingScenario_def NewSyncer_def)

lemma assign_two:
  "\<exists>s'. assignBytecodeTasks (\<lambda>n. of_nat n) [''peer1''] (\<lambda>_. 2) (\<lambda>_. [1, 2, 3]) pendingScenario 0
          = Some (Returned (s', 2, [1]))
        \<and> reqStore s' 1 = \<lparr>req_peer = ''peer1'', req_id = 1, req_timeout = Armed,
                            req_stale = False, req_hashes = [1, 2], req_task = 0\<rparr>
        \<and> codeTasks (taskStore s' 0) = {3} \<and> bytecodeReqs s' = [1 \<mapsto> 1]"
  by (simp add: assignBytecodeTasks_def idleCandidates_def sortIdlers_def Let_def
        pending_fields alloc_first capRequest_def maxCodeRequestCount_val insert_Diff_if)

lemma heal_fields:
  "bytecodeHealIdlers pendingScenario = {''peer1''}"
  "bytecodeHealReqs pendingScenario = Map.empty"
  "healer pendingScenario = \<lparr>scheduler = (), trieTasks = Map.empty, h_codeTasks = {1, 2, 3}\<rparr>"
  by (simp_all add: pendingScenario_def NewSyncer_def)

lemma assign_heal_two:
  "\<exists>h'. assignBytecodeHealTasks (\<lambda>n. of_nat n) [''peer1''] (\<lambda>_. 2) [1, 2, 3] (\<lambda>_. 0)
           (\<lambda>_ _. ([], [], ())) pendingScenario 0
          = Some (Returned (h', 2, [1]))"
  by (simp add: assignBytecodeHealTasks_def idleCandidates_def sortIdlers_def Let_def
        healLoop.simps [of _ _ _ _ "[(''peer1'', 2)]"] healLoop.simps [of _ _ _ _ "[]"]
        topUp_def maxTrieRequestCount_def maxRequestSize_def
        pending_fields heal_fields alloc_first capRequest_def maxCodeRequestCount_val
        insert_Diff_if)

text \<open>
  C7. Whenever \<open>assignBytecodeTasks\<close> returns, every request it has issued has an id
  that is not zero, is below \<open>2 ^ 63\<close> and was not a key of \<open>bytecodeReqs\<close> when the
  assignment began; the ledger then maps each of these ids to its own request, so the
  ids of one round are pairwise different and none was a key when it was inserted,
  and every entry the ledger held before is still there, unchanged. The same holds for
  \<open>assignBytecodeHealTasks\<close> and \<open>bytecodeHealReqs\<close>. The drawing loop itself returns only
  ids that are not zero, below \<open>2 ^ 63\<close> and not keys of the ledger, and it does return
  as soon as the generator yields such a value.
\<close>

theorem request_ids_fresh:
  "(assignBytecodeTasks rng peerOrder capacity order s n = Some (Returned (s', n', out)) \<longrightarrow>
      (\<forall>r\<in>set out.
          req_id (reqStore s' r) \<noteq> 0 \<and> req_id (reqStore s' r) < 2 ^ 63
          \<and> bytecodeReqs s (req_id (reqStore s' r)) = None
          \<and> bytecodeReqs s' (req_id (reqStore s' r)) = Some r)
      \<and> distinct out \<and> inj_on (\<lambda>r. req_id (reqStore s' r)) (set out)
      \<and> (\<forall>k. bytecodeReqs s k \<noteq> None \<longrightarrow> bytecodeReqs s' k = bytecodeReqs s k))
   \<and> (assignBytecodeHealTasks rng peerOrder capacity horder Pending Missing (h :: 'sch syncer) n
         = Some (Returned (h', hn', hout)) \<longrightarrow>
      (\<forall>r\<in>set hout.
          hreq_id (healReqStore h' r) \<noteq> 0 \<and> hreq_id (healReqStore h' r) < 2 ^ 63
          \<and> bytecodeHealReqs h (hreq_id (healReqStore h' r)) = None
          \<and> bytecodeHealReqs h' (hreq_id (healReqStore h' r)) = Some r)
      \<and> distinct hout \<and> inj_on (\<lambda>r. hreq_id (healReqStore h' r)) (set hout)
      \<and> (\<forall>k. bytecodeHealReqs h k \<noteq> None \<longrightarrow> bytecodeHealReqs h' k = bytecodeHealReqs h k))
   \<and> (allocReqid rng ledger n = Some (rid, m) \<longrightarrow>
        rid \<noteq> 0 \<and> rid < 2 ^ 63 \<and> ledger rid = None)
   \<and> (Int63 rng (n + k) \<noteq> 0 \<and> ledger (Int63 rng (n + k)) = None \<longrightarrow>
        allocReqid rng ledger n \<noteq> None)"
proof (intro conjI impI)
  assume a: "assignBytecodeTasks rng peerOrder capacity order s n = Some (Returned (s', n', out))"
  let ?idlers = "idleCandidates peerOrder capacity (bytecodeIdlers s) (statelessPeers s)"
  have inv: "out = [] @ [nextRef s..<nextRef s'] \<and> nextRef s \<le> nextRef s'
      \<and> (\<forall>a<nextRef s. reqStore s' a = reqStore s a)
      \<and> (\<forall>t. codeTasks (taskStore s' t) \<subseteq> codeTasks (taskStore s t))
      \<and> (\<forall>k. bytecodeReqs s k \<noteq> None \<longrightarrow> bytecodeReqs s' k = bytecodeReqs s k)
      \<and> (\<forall>r\<in>set [nextRef s..<nextRef s'].
            req_id (reqStore s' r) \<noteq> 0 \<and> req_id (reqStore s' r) < 2 ^ 63
            \<and> bytecodeReqs s (req_id (reqStore s' r)) = None
            \<and> bytecodeReqs s' (req_id (reqStore s' r)) = Some r
            \<and> int (length (req_hashes (reqStore s' r)))
                \<le> max 1 (min (capacity (req_peer (reqStore s' r))) maxCodeRequestCount)
            \<and> distinct (req_hashes (reqStore s' r))
            \<and> set (req_hashes (reqStore s' r))
                \<subseteq> codeTasks (taskStore s (req_task (reqStore s' r)))
            \<and> set (req_hashes (reqStore s' r))
                \<inter> codeTasks (taskStore s' (req_task (reqStore s' r))) = {}
            \<and> req_timeout (reqStore s' r) = Armed \<and> \<not> req_stale (reqStore s' r))"
  proof (cases "length ?idlers = 0")
    case True
    then have "s' = s" "out = []" using a by (simp_all add: assignBytecodeTasks_def Let_def)
    then show ?thesis by simp
  next
    case False
    then have "assignLoop rng order (tasks s) (sortIdlers ?idlers) s n []
                 = Some (Returned (s', n', out))"
      using a by (simp add: assignBytecodeTasks_def Let_def)
    from assignLoop_inv [OF this idleCandidates_caps] show ?thesis .
  qed
  then have o: "out = [nextRef s..<nextRef s']" by simp
  show "\<forall>r\<in>set out.
          req_id (reqStore s' r) \<noteq> 0 \<and> req_id (reqStore s' r) < 2 ^ 63
          \<and> bytecodeReqs s (req_id (reqStore s' r)) = None
          \<and> bytecodeReqs s' (req_id (reqStore s' r)) = Some r"
    using inv unfolding o by blast
  then have id: "\<forall>r\<in>set out. bytecodeReqs s' (req_id (reqStore s' r)) = Some r" by blast
  show "distinct out" unfolding o by simp
  show "inj_on (\<lambda>r. req_id (reqStore s' r)) (set out)"
  proof (rule inj_onI)
    fix x y assume "x \<in> set out" "y \<in> set out"
      and "req_id (reqStore s' x) = req_id (reqStore s' y)"
    with id have "Some x = Some y" by metis
    then show "x = y" by simp
  qed
  show "\<forall>k. bytecodeReqs s k \<noteq> None \<longrightarrow> bytecodeReqs s' k = bytecodeReqs s k"
    using inv by blast
next
  assume a: "assignBytecodeHealTasks rng peerOrder capacity horder Pending Missing h n
               = Some (Returned (h', hn', hout))"
  let ?idlers = "idleCandidates peerOrder capacity (bytecodeHealIdlers h) (statelessPeers h)"
  have inv: "hout = [] @ [nextRef h..<nextRef h'] \<and> nextRef h \<le> nextRef h'
     \<and> (\<forall>a<nextRef h. healReqStore h' a = healReqStore h a)
     \<and> (\<forall>k. bytecodeHealReqs h k \<noteq> None \<longrightarrow> bytecodeHealReqs h' k = bytecodeHealReqs h k)
     \<and> (\<forall>r\<in>set [nextRef h..<nextRef h'].
           hreq_id (healReqStore h' r) \<noteq> 0 \<and> hreq_id (healReqStore h' r) < 2 ^ 63
           \<and> bytecodeHealReqs h (hreq_id (healReqStore h' r)) = None
           \<and> bytecodeHealReqs h' (hreq_id (healReqStore h' r)) = Some r)"
  proof (cases "length ?idlers = 0")
    case True
    then have "h' = h" "hout = []"
      using a by (simp_all add: assignBytecodeHealTasks_def Let_def)
    then show ?thesis by simp
  next
    case False
    then have "healLoop rng horder Pending Missing (sortIdlers ?idlers) h n []
                 = Some (Returned (h', hn', hout))"
      using a by (simp add: assignBytecodeHealTasks_def Let_def)
    from healLoop_inv [OF this] show ?thesis .
  qed
  then have o: "hout = [nextRef h..<nextRef h']" by simp
  show "\<forall>r\<in>set hout.
          hreq_id (healReqStore h' r) \<noteq> 0 \<and> hreq_id (healReqStore h' r) < 2 ^ 63
          \<and> bytecodeHealReqs h (hreq_id (healReqStore h' r)) = None
          \<and> bytecodeHealReqs h' (hreq_id (healReqStore h' r)) = Some r"
    using inv unfolding o by blast
  then have id: "\<forall>r\<in>set hout. bytecodeHealReqs h' (hreq_id (healReqStore h' r)) = Some r"
    by blast
  show "distinct hout" unfolding o by simp
  show "inj_on (\<lambda>r. hreq_id (healReqStore h' r)) (set hout)"
  proof (rule inj_onI)
    fix x y assume "x \<in> set hout" "y \<in> set hout"
      and "hreq_id (healReqStore h' x) = hreq_id (healReqStore h' y)"
    with id have "Some x = Some y" by metis
    then show "x = y" by simp
  qed
  show "\<forall>k. bytecodeHealReqs h k \<noteq> None \<longrightarrow> bytecodeHealReqs h' k = bytecodeHealReqs h k"
    using inv by blast
next
  assume "allocReqid rng ledger n = Some (rid, m)"
  from allocReqid_fresh [OF this]
  show "rid \<noteq> 0" "rid < 2 ^ 63" "ledger rid = None" by blast+
next
  assume "Int63 rng (n + k) \<noteq> 0 \<and> ledger (Int63 rng (n + k)) = None"
  then show "allocReqid rng ledger n \<noteq> None"
    using allocReqid_returns [of rng n k ledger] by blast
qed

theorem request_ids_fresh_witness:
  "(\<exists>s'. assignBytecodeTasks (\<lambda>n. of_nat n) [''peer1''] (\<lambda>_. 2) (\<lambda>_. [1, 2, 3]) pendingScenario 0
           = Some (Returned (s', 2, [1]))
         \<and> req_id (reqStore s' 1) = 1 \<and> req_id (reqStore s' 1) \<noteq> 0
         \<and> req_id (reqStore s' 1) < 2 ^ 63
         \<and> bytecodeReqs pendingScenario (req_id (reqStore s' 1)) = None
         \<and> bytecodeReqs s' (req_id (reqStore s' 1)) = Some 1)
   \<and> (\<exists>h'. assignBytecodeHealTasks (\<lambda>n. of_nat n) [''peer1''] (\<lambda>_. 2) [1, 2, 3] (\<lambda>_. 0)
              (\<lambda>_ _. ([], [], ())) pendingScenario 0
           = Some (Returned (h', 2, [1]))
         \<and> hreq_id (healReqStore h' 1) \<noteq> 0 \<and> hreq_id (healReqStore h' 1) < 2 ^ 63
         \<and> bytecodeHealReqs pendingScenario (hreq_id (healReqStore h' 1)) = None
         \<and> bytecodeHealReqs h' (hreq_id (healReqStore h' 1)) = Some 1)
   \<and> allocReqid (\<lambda>n. of_nat n) Map.empty 0 = Some (1, 2)
   \<and> Int63 (\<lambda>n. of_nat n) (0 + 1) \<noteq> 0
   \<and> allocReqid (\<lambda>n. of_nat n) (Map.empty :: 64 word \<rightharpoonup> reqRef) 0 \<noteq> None"
proof -
  obtain s' where
    e: "assignBytecodeTasks (\<lambda>n. of_nat n) [''peer1''] (\<lambda>_. 2) (\<lambda>_. [1, 2, 3]) pendingScenario 0
          = Some (Returned (s', 2, [1]))"
    and q: "reqStore s' 1 = \<lparr>req_peer = ''peer1'', req_id = 1, req_timeout = Armed,
                             req_stale = False, req_hashes = [1, 2], req_task = 0\<rparr>"
    using assign_two by blast
  have q': "reqStore s' (Suc 0) = \<lparr>req_peer = ''peer1'', req_id = 1, req_timeout = Armed,
                             req_stale = False, req_hashes = [1, 2], req_task = 0\<rparr>"
    using q by simp
  obtain h' where
    eh: "assignBytecodeHealTasks (\<lambda>n. of_nat n) [''peer1''] (\<lambda>_. 2) [1, 2, 3] (\<lambda>_. 0)
           (\<lambda>_ _. ([], [], ())) pendingScenario 0
          = Some (Returned (h', 2, [1]))"
    using assign_heal_two by blast
  have i: "Int63 (\<lambda>n. of_nat n) (0 + 1) \<noteq> 0
           \<and> (Map.empty :: 64 word \<rightharpoonup> reqRef) (Int63 (\<lambda>n. of_nat n) (0 + 1)) = None"
    by (simp add: Int63_def)
  note t = request_ids_fresh
             [of "\<lambda>n. of_nat n" "[''peer1'']" "\<lambda>_. 2" "\<lambda>_. [1, 2, 3]" pendingScenario 0 s' 2 "[1]"
                 "[1, 2, 3]" "\<lambda>_. 0" "\<lambda>_ _. ([], [], ())" pendingScenario h' 2 "[1]"
                 "Map.empty :: 64 word \<rightharpoonup> reqRef" 1 2 1]
  from t e have a: "req_id (reqStore s' 1) \<noteq> 0 \<and> req_id (reqStore s' 1) < 2 ^ 63
          \<and> bytecodeReqs pendingScenario (req_id (reqStore s' 1)) = None
          \<and> bytecodeReqs s' (req_id (reqStore s' 1)) = Some 1"
    by (simp add: q q')
  from t eh have b: "hreq_id (healReqStore h' 1) \<noteq> 0 \<and> hreq_id (healReqStore h' 1) < 2 ^ 63
          \<and> bytecodeHealReqs pendingScenario (hreq_id (healReqStore h' 1)) = None
          \<and> bytecodeHealReqs h' (hreq_id (healReqStore h' 1)) = Some 1"
    by simp
  from t i have c: "allocReqid (\<lambda>n. of_nat n) (Map.empty :: 64 word \<rightharpoonup> reqRef) 0 \<noteq> None"
    by simp
  from e q a have 1: "\<exists>s'. assignBytecodeTasks (\<lambda>n. of_nat n) [''peer1''] (\<lambda>_. 2) (\<lambda>_. [1, 2, 3])
             pendingScenario 0
           = Some (Returned (s', 2, [1]))
         \<and> req_id (reqStore s' 1) = 1 \<and> req_id (reqStore s' 1) \<noteq> 0
         \<and> req_id (reqStore s' 1) < 2 ^ 63
         \<and> bytecodeReqs pendingScenario (req_id (reqStore s' 1)) = None
         \<and> bytecodeReqs s' (req_id (reqStore s' 1)) = Some 1"
    by (intro exI [of _ s']) simp
  from eh b have 2: "\<exists>h'. assignBytecodeHealTasks (\<lambda>n. of_nat n) [''peer1''] (\<lambda>_. 2) [1, 2, 3]
              (\<lambda>_. 0) (\<lambda>_ _. ([], [], ())) pendingScenario 0
           = Some (Returned (h', 2, [1]))
         \<and> hreq_id (healReqStore h' 1) \<noteq> 0 \<and> hreq_id (healReqStore h' 1) < 2 ^ 63
         \<and> bytecodeHealReqs pendingScenario (hreq_id (healReqStore h' 1)) = None
         \<and> bytecodeHealReqs h' (hreq_id (healReqStore h' 1)) = Some 1"
    by (intro exI [of _ h']) simp
  from 1 2 c i alloc_first show ?thesis by blast
qed




end
